theory Spec2Isabelle
  imports Main "HOL-Library.Signed_Division" "HOL-Library.Word"
begin

section \<open>Go values used by the model manager\<close>

text \<open>
  Times and durations are nanosecond counts, as in Go's \<^verbatim>\<open>time\<close> package; a start-up
  lasts seconds to hours, far from the bounds of 64 bits, so they are integers here.
  Strings are byte sequences.
\<close>

type_synonym time = int
type_synonym duration = int

text \<open>
  Error values. \<open>EOF\<close> is \<^verbatim>\<open>io.EOF\<close>; \<open>Canceled\<close> and \<open>DeadlineExceeded\<close> are the two
  context errors; \<open>Lib\<close> is any other error produced by the standard library (network,
  JSON syntax, duration syntax); \<open>New\<close> is \<^verbatim>\<open>errors.New\<close> or \<^verbatim>\<open>fmt.Errorf\<close> without
  \<^verbatim>\<open>%w\<close>; \<open>Wrap p e\<close> is \<^verbatim>\<open>fmt.Errorf\<close> with a prefix \<open>p\<close> and \<^verbatim>\<open>%w\<close> as its last verb.
\<close>

datatype go_error = EOF | Canceled | DeadlineExceeded | Lib string | New string
  | Wrap string go_error

fun Error_text :: "go_error \<Rightarrow> string" where
  "Error_text EOF = ''EOF''"
| "Error_text Canceled = ''context canceled''"
| "Error_text DeadlineExceeded = ''context deadline exceeded''"
| "Error_text (Lib s) = s"
| "Error_text (New s) = s"
| "Error_text (Wrap p e) = p @ Error_text e"

text \<open>\<^verbatim>\<open>errors.Is(err, context.Canceled)\<close>: the error is the cancellation error or wraps it.\<close>

fun is_canceled :: "go_error \<Rightarrow> bool" where
  "is_canceled Canceled = True"
| "is_canceled (Wrap p e) = is_canceled e"
| "is_canceled e = False"

text \<open>The verb \<^verbatim>\<open>%d\<close> on an \<^verbatim>\<open>int\<close>.\<close>

fun digits10 :: "nat \<Rightarrow> string" where
  "digits10 n = (if n < 10 then [char_of (48 + n)]
                 else digits10 (n div 10) @ [char_of (48 + n mod 10)])"

declare digits10.simps [simp del]

definition itoa :: "int \<Rightarrow> string" where
  "itoa i = (if i < 0 then ''-'' @ digits10 (nat (- i)) else digits10 (nat i))"

text \<open>A function of the program either returns or panics.\<close>

datatype 'a outcome = Panic | Return 'a

subsection \<open>Wire types\<close>

record pullEvent =
  Status :: string
  Error :: string
  Digest :: string
  Total :: "64 word"
  Completed :: "64 word"

text \<open>One call of \<^verbatim>\<open>dec.Decode(&ev)\<close> on the response body: an event or an error.\<close>

datatype decode_result = Event pullEvent | DecodeErr go_error

record request =
  Method :: string
  URL :: string
  Body :: "string option"
  Header :: "(string \<times> string) list"
  Timeout :: duration

text \<open>
  A response is what its readers observe of the body: \<open>content\<close> are the bytes
  \<^verbatim>\<open>io.ReadAll\<close> can read, \<open>as_tags\<close> is the outcome of decoding the body into a
  \<^verbatim>\<open>tagsResponse\<close> (the names of its models, in order), and \<open>as_events\<close> are the outcomes
  of the successive \<^verbatim>\<open>Decode\<close> calls of the pull stream, each with the time it takes;
  past the end of that list \<^verbatim>\<open>Decode\<close> returns \<^verbatim>\<open>io.EOF\<close>.
\<close>

record response =
  StatusCode :: int
  content :: string
  as_tags :: "go_error + string list"
  as_events :: "(nat \<times> decode_result) list"

subsection \<open>The world: clock, backend and observable trace\<close>

text \<open>
  The three functions that talk to the backend; every request in the trace carries
  the one that issued it.
\<close>

datatype site = PingSite | ListSite | PullSite

datatype event =
    Http time site request "go_error + response"
  | Log string
  | Stderr string
  | Sleep duration

record 'b world =
  clock :: time
  backend :: 'b
  trace :: "event list"

text \<open>
  The HTTP client and the backend behind it. \<open>url_ok\<close> tells whether
  \<^verbatim>\<open>http.NewRequestWithContext\<close> accepts the URL; \<open>roundtrip\<close> is
  \<^verbatim>\<open>httpClient(timeout).Do(req)\<close>: from the request, the time of the call and the state of
  the backend it gives the result, the time taken and the backend's next state. The
  context is only ever handed to the request, so a cancelled or expired context shows as
  the error that \<open>roundtrip\<close> or a later \<^verbatim>\<open>Decode\<close> returns. \<open>tick\<close> is the time that
  passes before a call of \<^verbatim>\<open>time.Now()\<close> reads the clock; two readings in a row need
  not agree.
\<close>

record 'b transport =
  url_ok :: "string \<Rightarrow> bool"
  roundtrip :: "request \<Rightarrow> time \<Rightarrow> 'b \<Rightarrow> (go_error + response) \<times> nat \<times> 'b"
  tick :: "time \<Rightarrow> 'b \<Rightarrow> nat"

definition emit :: "event \<Rightarrow> 'b world \<Rightarrow> 'b world" where
  "emit e w = w\<lparr>trace := trace w @ [e]\<rparr>"

definition elapse :: "nat \<Rightarrow> 'b world \<Rightarrow> 'b world" where
  "elapse d w = w\<lparr>clock := clock w + int d\<rparr>"

text \<open>\<^verbatim>\<open>time.Now()\<close>: the clock read, and the world at that moment.\<close>

definition Now :: "'b transport \<Rightarrow> 'b world \<Rightarrow> time \<times> 'b world" where
  "Now T w = (let w' = elapse (tick T (clock w) (backend w)) w in (clock w', w'))"

text \<open>
  \<^verbatim>\<open>req, _ := http.NewRequestWithContext(...); resp, err := httpClient(timeout).Do(req)\<close>.
  The source drops the error of the first call: when the URL is refused the request is
  nil and \<^verbatim>\<open>Do\<close> dereferences it.
\<close>

definition Do :: "'b transport \<Rightarrow> site \<Rightarrow> request \<Rightarrow> 'b world
    \<Rightarrow> (go_error + response) outcome \<times> 'b world" where
  "Do T s rq w =
     (if \<not> url_ok T (URL rq) then (Panic, w)
      else case roundtrip T rq (clock w) (backend w) of
        (res, lat, b') \<Rightarrow>
          (Return res,
           elapse lat (emit (Http (clock w) s rq res) (w\<lparr>backend := b'\<rparr>))))"

section \<open>load.go\<close>

subsection \<open>pullModel\<close>

definition pull_body :: "string \<Rightarrow> string" where
  "pull_body model = ''{\"name\":\"'' @ model @ ''\"}''"

definition pull_request :: "string \<Rightarrow> duration \<Rightarrow> string \<Rightarrow> request" where
  "pull_request base tmo model =
     \<lparr>Method = ''POST'', URL = base @ ''/api/pull'', Body = Some (pull_body model),
      Header = [(''Content-Type'', ''application/json'')], Timeout = tmo\<rparr>"

definition stream_ended :: "string \<Rightarrow> go_error" where
  "stream_ended model = New (''pull '' @ model @ '': stream ended without success'')"

text \<open>
  The decode loop. Its result is the error returned (\<open>None\<close> for nil), the part of the
  stream left unread, and the world.
\<close>

fun decode_loop :: "string \<Rightarrow> (nat \<times> decode_result) list \<Rightarrow> 'b world
    \<Rightarrow> go_error option \<times> (nat \<times> decode_result) list \<times> 'b world" where
  "decode_loop model [] w = (Some (stream_ended model), [], w)"
| "decode_loop model ((d, DecodeErr err) # rest) w =
     (if err = EOF then (Some (stream_ended model), rest, elapse d w)
      else (Some (Wrap (''pull '' @ model @ '': decode: '') err), rest, elapse d w))"
| "decode_loop model ((d, Event ev) # rest) w =
     (if Error ev \<noteq> '''' then
        (Some (New (''pull '' @ model @ '': '' @ Error ev)), rest, elapse d w)
      else
        let w' = (if Status ev \<noteq> ''''
                  then emit (Log (''pull '' @ model @ '': '' @ Status ev)) (elapse d w)
                  else elapse d w)
        in if Status ev = ''success'' then (None, rest, w')
           else decode_loop model rest w')"

definition pullModel :: "'b transport \<Rightarrow> string \<Rightarrow> duration \<Rightarrow> string \<Rightarrow> 'b world
    \<Rightarrow> go_error option outcome \<times> 'b world" where
  "pullModel T base tmo model w =
     (case Do T PullSite (pull_request base tmo model) w of
        (Panic, w') \<Rightarrow> (Panic, w')
      | (Return (Inl err), w') \<Rightarrow> (Return (Some err), w')
      | (Return (Inr resp), w') \<Rightarrow>
          if StatusCode resp sdiv 100 \<noteq> 2 then
            (Return (Some (New (''pull '' @ model @ '' failed: status ''
                @ itoa (StatusCode resp) @ '': '' @ take 8192 (content resp)))), w')
          else (case decode_loop model (as_events resp) w' of
                  (r, _, w'') \<Rightarrow> (Return r, w'')))"

subsection \<open>pingOllama and listModels\<close>

definition tags_request :: "string \<Rightarrow> duration \<Rightarrow> request" where
  "tags_request base tmo =
     \<lparr>Method = ''GET'', URL = base @ ''/api/tags'', Body = None, Header = [],
      Timeout = tmo\<rparr>"

definition pingOllama :: "'b transport \<Rightarrow> string \<Rightarrow> duration \<Rightarrow> 'b world
    \<Rightarrow> go_error option outcome \<times> 'b world" where
  "pingOllama T base tmo w =
     (case Do T PingSite (tags_request base tmo) w of
        (Panic, w') \<Rightarrow> (Panic, w')
      | (Return (Inl err), w') \<Rightarrow> (Return (Some err), w')
      | (Return (Inr resp), w') \<Rightarrow>
          if 400 \<le> StatusCode resp then
            (Return (Some (New (''ollama /api/tags status '' @ itoa (StatusCode resp)))), w')
          else (Return None, w'))"

text \<open>The result map has only keys: it is the set of the names listed.\<close>

definition listModels :: "'b transport \<Rightarrow> string \<Rightarrow> duration \<Rightarrow> 'b world
    \<Rightarrow> (go_error + string set) outcome \<times> 'b world" where
  "listModels T base tmo w =
     (case Do T ListSite (tags_request base tmo) w of
        (Panic, w') \<Rightarrow> (Panic, w')
      | (Return (Inl err), w') \<Rightarrow> (Return (Inl err), w')
      | (Return (Inr resp), w') \<Rightarrow>
          if 400 \<le> StatusCode resp then
            (Return (Inl (New (''status '' @ itoa (StatusCode resp)))), w')
          else (case as_tags resp of
                  Inl err \<Rightarrow> (Return (Inl err), w')
                | Inr names \<Rightarrow> (Return (Inr (set names)), w')))"

subsection \<open>ensureAll\<close>

text \<open>The first loop of \<^verbatim>\<open>ensureAll\<close>; the accumulator is \<^verbatim>\<open>missing\<close>.\<close>

fun collect_missing :: "string set \<Rightarrow> string list \<Rightarrow> string list \<Rightarrow> string list" where
  "collect_missing have [] missing = missing"
| "collect_missing have (need # rest) missing =
     collect_missing have rest (if need \<notin> have then missing @ [need] else missing)"

text \<open>The second loop.\<close>

fun pull_each :: "'b transport \<Rightarrow> string \<Rightarrow> duration \<Rightarrow> string list \<Rightarrow> 'b world
    \<Rightarrow> go_error option outcome \<times> 'b world" where
  "pull_each T base tmo [] w = (Return None, w)"
| "pull_each T base tmo (m # ms) w =
     (case pullModel T base tmo m (emit (Log (''pulling missing model: '' @ m)) w) of
        (Panic, w') \<Rightarrow> (Panic, w')
      | (Return (Some err), w') \<Rightarrow> (Return (Some err), w')
      | (Return None, w') \<Rightarrow> pull_each T base tmo ms w')"

definition ensureAll :: "'b transport \<Rightarrow> string \<Rightarrow> duration \<Rightarrow> string list \<Rightarrow> 'b world
    \<Rightarrow> go_error option outcome \<times> 'b world" where
  "ensureAll T base tmo required w =
     (case listModels T base tmo w of
        (Panic, w') \<Rightarrow> (Panic, w')
      | (Return (Inl err), w') \<Rightarrow> (Return (Some err), w')
      | (Return (Inr have), w') \<Rightarrow>
          pull_each T base tmo (collect_missing have required []) w')"

subsection \<open>waitUntilReady\<close>

text \<open>\<^verbatim>\<open>time.Sleep(d)\<close>: it returns at once when \<open>d\<close> is not positive.\<close>

definition Sleep_for :: "duration \<Rightarrow> 'b world \<Rightarrow> 'b world" where
  "Sleep_for d w = (emit (Sleep d) w)\<lparr>clock := clock w + max 0 d\<rparr>"

definition Second :: duration where
  "Second = 1000000000"

definition backoff :: duration where
  "backoff = 2 * Second"

lemma clock_emit [simp]: "clock (emit e w) = clock w"
  by (simp add: emit_def)

lemma clock_elapse [simp]: "clock (elapse d w) = clock w + int d"
  by (simp add: elapse_def)

lemma clock_Sleep_for [simp]: "clock (Sleep_for d w) = clock w + max 0 d"
  by (simp add: Sleep_for_def emit_def)

lemma Do_clock: "Do T s rq w = (r, w') \<Longrightarrow> clock w \<le> clock w'"
  by (auto simp: Do_def split: if_splits prod.splits)

lemma decode_loop_clock: "decode_loop model es w = (r, rest, w') \<Longrightarrow> clock w \<le> clock w'"
proof (induction model es w rule: decode_loop.induct)
  case (3 model d ev rest w)
  then show ?case
    by (fastforce split: if_splits simp: Let_def)
qed (auto split: if_splits)

lemma pullModel_clock: "pullModel T base tmo m w = (r, w') \<Longrightarrow> clock w \<le> clock w'"
  unfolding pullModel_def
  by (auto split: prod.splits outcome.splits sum.splits if_splits
      dest!: Do_clock decode_loop_clock)

lemma pingOllama_clock: "pingOllama T base tmo w = (r, w') \<Longrightarrow> clock w \<le> clock w'"
  unfolding pingOllama_def
  by (auto split: prod.splits outcome.splits sum.splits if_splits dest!: Do_clock)

lemma listModels_clock: "listModels T base tmo w = (r, w') \<Longrightarrow> clock w \<le> clock w'"
  unfolding listModels_def
  by (auto split: prod.splits outcome.splits sum.splits if_splits dest!: Do_clock)

lemma pull_each_clock: "pull_each T base tmo ms w = (r, w') \<Longrightarrow> clock w \<le> clock w'"
proof (induction ms arbitrary: w)
  case Nil
  then show ?case by simp
next
  case (Cons m ms)
  show ?case
  proof (cases "pullModel T base tmo m (emit (Log (''pulling missing model: '' @ m)) w)")
    case (Pair o1 w1)
    from pullModel_clock [OF Pair] have le: "clock w \<le> clock w1" by simp
    show ?thesis
    proof (cases o1)
      case Panic
      with Pair Cons.prems le show ?thesis by simp
    next
      case (Return eo)
      show ?thesis
      proof (cases eo)
        case None
        with Pair Return Cons.prems have "pull_each T base tmo ms w1 = (r, w')" by simp
        from Cons.IH [OF this] le show ?thesis by simp
      next
        case (Some err)
        with Pair Return Cons.prems le show ?thesis by simp
      qed
    qed
  qed
qed

lemma ensureAll_clock: "ensureAll T base tmo required w = (r, w') \<Longrightarrow> clock w \<le> clock w'"
  unfolding ensureAll_def
  by (auto split: prod.splits outcome.splits sum.splits
      dest!: listModels_clock pull_each_clock)

text \<open>The world in which a call of \<^verbatim>\<open>time.Now()\<close> returns.\<close>

definition reading :: "'b transport \<Rightarrow> 'b world \<Rightarrow> 'b world" where
  "reading T w = snd (Now T w)"

lemma Now_reading: "Now T w = (clock (reading T w), reading T w)"
  by (simp add: Now_def reading_def Let_def)

lemma clock_reading: "clock w \<le> clock (reading T w)"
  by (simp add: Now_def reading_def Let_def)

lemma trace_reading [simp]: "trace (reading T w) = trace w"
  by (simp add: Now_def reading_def Let_def elapse_def)

lemma backend_reading [simp]: "backend (reading T w) = backend w"
  by (simp add: Now_def reading_def Let_def elapse_def)

text \<open>
  The loop of \<^verbatim>\<open>waitUntilReady\<close>; \<open>lasterr\<close> is the variable \<^verbatim>\<open>last\<close>, \<open>None\<close> for nil.
  Every iteration reads the clock anew. Each iteration that continues has paused for
  the backoff, so the clock nears the deadline and the loop ends.
\<close>

function wait_loop :: "'b transport \<Rightarrow> string \<Rightarrow> duration \<Rightarrow> string list \<Rightarrow> time
    \<Rightarrow> go_error option \<Rightarrow> 'b world \<Rightarrow> go_error option outcome \<times> 'b world" where
  "wait_loop T base reqTimeout required deadline lasterr w =
     (case Now T w of (now, w0) \<Rightarrow>
        if now > deadline then
          (Return (Some (case lasterr of None \<Rightarrow> New ''startup timeout'' | Some e \<Rightarrow> e)), w0)
        else case pingOllama T base reqTimeout w0 of
          (Panic, w1) \<Rightarrow> (Panic, w1)
        | (Return (Some err), w1) \<Rightarrow>
            wait_loop T base reqTimeout required deadline
              (Some (Wrap ''ollama not responding: '' err)) (Sleep_for backoff w1)
        | (Return None, w1) \<Rightarrow>
            (case ensureAll T base reqTimeout required w1 of
               (Panic, w2) \<Rightarrow> (Panic, w2)
             | (Return (Some err), w2) \<Rightarrow>
                 wait_loop T base reqTimeout required deadline
                   (Some (Wrap ''ensure models: '' err)) (Sleep_for backoff w2)
             | (Return None, w2) \<Rightarrow> (Return None, w2)))"
  by pat_completeness auto
termination
  apply (relation "measure (\<lambda>(T, base, reqTimeout, required, deadline, lasterr, w).
                    nat (deadline + 1 - clock w))")
    apply simp
   apply (auto simp: Now_def Let_def backoff_def Second_def
      dest!: pingOllama_clock [OF sym] ensureAll_clock [OF sym])
  done

declare wait_loop.simps [simp del]

text \<open>
  \<^verbatim>\<open>deadline := time.Now().Add(startupLimit)\<close>, then the loop, whose first check reads the
  clock again.
\<close>

definition waitUntilReady :: "'b transport \<Rightarrow> string \<Rightarrow> duration \<Rightarrow> duration \<Rightarrow> string list
    \<Rightarrow> 'b world \<Rightarrow> go_error option outcome \<times> 'b world" where
  "waitUntilReady T base reqTimeout startupLimit required w =
     (case Now T w of (now, w0) \<Rightarrow>
        wait_loop T base reqTimeout required (now + startupLimit) None w0)"

section \<open>Notions used in the statements\<close>

subsection \<open>Shapes of a pull stream\<close>

text \<open>A decoded event whose error field is empty.\<close>

fun ok_event :: "nat \<times> decode_result \<Rightarrow> bool" where
  "ok_event (d, Event ev) = (Error ev = '''')"
| "ok_event (d, DecodeErr err) = False"

text \<open>A decoded event whose status is the success marker.\<close>

fun is_success :: "nat \<times> decode_result \<Rightarrow> bool" where
  "is_success (d, Event ev) = (Status ev = ''success'')"
| "is_success (d, DecodeErr err) = False"

text \<open>A decoded event that lets the loop go on: no error, not the success marker.\<close>

definition progress :: "nat \<times> decode_result \<Rightarrow> bool" where
  "progress x = (ok_event x \<and> \<not> is_success x)"

text \<open>
  The pull request for \<open>model\<close> issued in world \<open>w\<close> is accepted and answered with
  \<open>resp\<close>, whose status is 2xx: the decode loop runs on \<open>as_events resp\<close>.
\<close>

definition streaming :: "'b transport \<Rightarrow> string \<Rightarrow> duration \<Rightarrow> string \<Rightarrow> 'b world \<Rightarrow> response \<Rightarrow> bool" where
  "streaming T base tmo model w resp =
     (url_ok T (base @ ''/api/pull'') \<and>
      fst (roundtrip T (pull_request base tmo model) (clock w) (backend w)) = Inr resp \<and>
      StatusCode resp sdiv 100 = 2)"

subsection \<open>Projections of a trace\<close>

text \<open>The pull requests of a trace, in the order issued.\<close>

fun pull_requests :: "event list \<Rightarrow> request list" where
  "pull_requests [] = []"
| "pull_requests (Http t PullSite rq res # es) = rq # pull_requests es"
| "pull_requests (e # es) = pull_requests es"

text \<open>The times at which the probes of a trace were issued.\<close>

fun probe_times :: "event list \<Rightarrow> time list" where
  "probe_times [] = []"
| "probe_times (Http t PingSite rq res # es) = t # probe_times es"
| "probe_times (e # es) = probe_times es"

text \<open>
  The actions of a trace, log lines left out: a probe with its verdict (the test of
  \<^verbatim>\<open>pingOllama\<close>: no transport error and a status below 400), an inventory query, a
  pull, a pause.
\<close>

datatype action = ProbeOk | ProbeFail | Inventory | Retrieval | Pause

fun probe_verdict :: "go_error + response \<Rightarrow> action" where
  "probe_verdict (Inl err) = ProbeFail"
| "probe_verdict (Inr resp) = (if 400 \<le> StatusCode resp then ProbeFail else ProbeOk)"

fun actions :: "event list \<Rightarrow> action list" where
  "actions [] = []"
| "actions (Http t PingSite rq res # es) = probe_verdict res # actions es"
| "actions (Http t ListSite rq res # es) = Inventory # actions es"
| "actions (Http t PullSite rq res # es) = Retrieval # actions es"
| "actions (Sleep d # es) = Pause # actions es"
| "actions (e # es) = actions es"

text \<open>What may follow what in the retry loop.\<close>

fun follows :: "action \<Rightarrow> action \<Rightarrow> bool" where
  "follows a ProbeOk = (a = Pause)"
| "follows a ProbeFail = (a = Pause)"
| "follows a Inventory = (a = ProbeOk)"
| "follows a Retrieval = (a = Inventory \<or> a = Retrieval)"
| "follows a Pause = (a = ProbeFail \<or> a = Inventory \<or> a = Retrieval)"

fun is_probe :: "action \<Rightarrow> bool" where
  "is_probe ProbeOk = True"
| "is_probe ProbeFail = True"
| "is_probe a = False"

subsection \<open>JSON text of the pull request\<close>

text \<open>
  Go's \<^verbatim>\<open>unicode/utf8\<close>: the number of bytes of the encoded character at the head of a
  string, after the tables of \<^verbatim>\<open>DecodeRuneInString\<close>; 0 when no valid encoding starts
  there.
\<close>

definition in_range :: "nat \<Rightarrow> nat \<Rightarrow> char \<Rightarrow> bool" where
  "in_range lo hi c = (lo \<le> of_char c \<and> (of_char c :: nat) \<le> hi)"

definition rune_size :: "nat \<Rightarrow> nat" where
  "rune_size x =
     (if x < 0x80 then 1
      else if 0xC2 \<le> x \<and> x \<le> 0xDF then 2
      else if 0xE0 \<le> x \<and> x \<le> 0xEF then 3
      else if 0xF0 \<le> x \<and> x \<le> 0xF4 then 4
      else 0)"

definition second_lo :: "nat \<Rightarrow> nat" where
  "second_lo x = (if x = 0xE0 then 0xA0 else if x = 0xF0 then 0x90 else 0x80)"

definition second_hi :: "nat \<Rightarrow> nat" where
  "second_hi x = (if x = 0xED then 0x9F else if x = 0xF4 then 0x8F else 0xBF)"

definition rune_width :: "string \<Rightarrow> nat" where
  "rune_width s =
     (case s of
        [] \<Rightarrow> 0
      | a # r \<Rightarrow>
          let x = of_char a; n = rune_size x
          in if n \<le> 1 then n
             else if length r < n - 1 then 0
             else if in_range (second_lo x) (second_hi x) (hd r)
                     \<and> list_all (in_range 0x80 0xBF) (take (n - 2) (tl r))
                  then n else 0)"

text \<open>
  The encoded characters of a string, when it is valid UTF-8
  (\<^verbatim>\<open>utf8.ValidString\<close>).
\<close>

fun runes :: "string \<Rightarrow> string list option" where
  "runes [] = Some []"
| "runes (b # rest) =
     (let n = rune_width (b # rest)
      in if n = 0 then None
         else map_option (Cons (take n (b # rest))) (runes (drop (n - 1) rest)))"

text \<open>
  \<^verbatim>\<open>encoding/json\<close>, what \<^verbatim>\<open>appendString\<close> writes between the quotes (Go 1.22 and
  later): ASCII outside the safe set is escaped, a byte that starts no valid encoding
  becomes the escape of U+FFFD, U+2028 and U+2029 are escaped, everything else is copied. With
  \<open>escapeHTML\<close>, the default of \<^verbatim>\<open>json.Marshal\<close>, the safe set leaves out \<open><\<close>, \<open>>\<close> and \<open>&\<close>.
\<close>

definition hex_digit :: "nat \<Rightarrow> char" where
  "hex_digit n = ''0123456789abcdef'' ! n"

definition safe_ascii :: "bool \<Rightarrow> char \<Rightarrow> bool" where
  "safe_ascii escapeHTML c =
     (32 \<le> (of_char c :: nat) \<and> c \<noteq> CHR 0x22 \<and> c \<noteq> CHR 0x5C
      \<and> (if escapeHTML then c \<noteq> CHR ''<'' \<and> c \<noteq> CHR ''>'' \<and> c \<noteq> CHR ''&'' else True))"

definition escape_ascii :: "char \<Rightarrow> string" where
  "escape_ascii c =
     (if c = CHR 0x5C \<or> c = CHR 0x22 then [CHR 0x5C, c]
      else if c = CHR 0x08 then [CHR 0x5C, CHR ''b'']
      else if c = CHR 0x0C then [CHR 0x5C, CHR ''f'']
      else if c = CHR 0x0A then [CHR 0x5C, CHR ''n'']
      else if c = CHR 0x0D then [CHR 0x5C, CHR ''r'']
      else if c = CHR 0x09 then [CHR 0x5C, CHR ''t'']
      else [CHR 0x5C, CHR ''u'', CHR ''0'', CHR ''0'',
            hex_digit (of_char c div 16), hex_digit (of_char c mod 16)])"

definition line_separator :: string where
  "line_separator = [CHR 0xE2, CHR 0x80, CHR 0xA8]"

definition paragraph_separator :: string where
  "paragraph_separator = [CHR 0xE2, CHR 0x80, CHR 0xA9]"

fun appendString :: "bool \<Rightarrow> string \<Rightarrow> string" where
  "appendString escapeHTML [] = []"
| "appendString escapeHTML (b # rest) =
     (if (of_char b :: nat) < 0x80 then
        (if safe_ascii escapeHTML b then [b] else escape_ascii b) @ appendString escapeHTML rest
      else
        let n = rune_width (b # rest)
        in if n = 0 then
             [CHR 0x5C, CHR ''u'', CHR ''f'', CHR ''f'', CHR ''f'', CHR ''d'']
               @ appendString escapeHTML rest
           else if take n (b # rest) = line_separator then
             [CHR 0x5C, CHR ''u'', CHR ''2'', CHR ''0'', CHR ''2'', CHR ''8'']
               @ appendString escapeHTML (drop (n - 1) rest)
           else if take n (b # rest) = paragraph_separator then
             [CHR 0x5C, CHR ''u'', CHR ''2'', CHR ''0'', CHR ''2'', CHR ''9'']
               @ appendString escapeHTML (drop (n - 1) rest)
           else take n (b # rest) @ appendString escapeHTML (drop (n - 1) rest))"

text \<open>
  What \<^verbatim>\<open>json.Marshal\<close> (or an encoder with HTML escaping switched off) returns for a
  value of \<^verbatim>\<open>struct{ Name string `json:"name"` }\<close>.
\<close>

definition json_name_object :: "bool \<Rightarrow> string \<Rightarrow> string" where
  "json_name_object escapeHTML model =
     ''{\"name\":'' @ [CHR 0x22] @ appendString escapeHTML model @ [CHR 0x22] @ ''}''"

text \<open>The encoded characters that \<^verbatim>\<open>appendString\<close> does not copy.\<close>

definition escaped :: "bool \<Rightarrow> string \<Rightarrow> bool" where
  "escaped escapeHTML r =
     (case r of
        [c] \<Rightarrow> \<not> safe_ascii escapeHTML c
      | _ \<Rightarrow> r = line_separator \<or> r = paragraph_separator)"

text \<open>
  The string is valid UTF-8 and holds none of the characters that the encoder escapes.
\<close>

definition needs_no_escape :: "bool \<Rightarrow> string \<Rightarrow> bool" where
  "needs_no_escape escapeHTML s =
     (case runes s of
        None \<Rightarrow> False
      | Some rs \<Rightarrow> list_all (\<lambda>r. \<not> escaped escapeHTML r) rs)"

section \<open>probe.go\<close>

text \<open>
  Functions of the Go standard library that \<^verbatim>\<open>probe.go\<close> calls on its configuration,
  taken as parameters: \<^verbatim>\<open>strings.TrimSpace\<close>, \<^verbatim>\<open>strings.Fields\<close>,
  \<^verbatim>\<open>time.ParseDuration\<close> and the verb \<^verbatim>\<open>%q\<close>; and the lines the Go runtime writes to
  standard error when \<^verbatim>\<open>Do\<close> dereferences a nil request: the panic line, the signal line
  and the goroutine trace.
\<close>

record golib =
  TrimSpace :: "string \<Rightarrow> string"
  Fields :: "string \<Rightarrow> string list"
  ParseDuration :: "string \<Rightarrow> go_error + duration"
  Quote :: "string \<Rightarrow> string"
  PanicReport :: "string list"

text \<open>\<^verbatim>\<open>strings.ReplaceAll(raw, ",", " ")\<close>.\<close>

definition commas_to_spaces :: "string \<Rightarrow> string" where
  "commas_to_spaces raw = map (\<lambda>c. if c = CHR '','' then CHR '' '' else c) raw"

text \<open>The environment gives the empty string for a variable that is not set.\<close>

definition requireEnv :: "golib \<Rightarrow> (string \<Rightarrow> string) \<Rightarrow> string \<Rightarrow> go_error + string" where
  "requireEnv L env key =
     (let v = TrimSpace L (env key)
      in if v = '''' then Inl (New (''required env '' @ key @ '' not set'')) else Inr v)"

definition parseModels :: "golib \<Rightarrow> string \<Rightarrow> go_error + string list" where
  "parseModels L raw =
     (let fields = Fields L (commas_to_spaces (TrimSpace L raw))
      in if length fields = 0 then Inl (New ''REQUIRED_MODELS must not be empty'')
         else Inr fields)"

definition mustParseDuration :: "golib \<Rightarrow> string \<Rightarrow> string \<Rightarrow> go_error + duration" where
  "mustParseDuration L val key =
     (case ParseDuration L val of
        Inl err \<Rightarrow> Inl (Wrap (key @ '' invalid duration '' @ Quote L val @ '': '') err)
      | Inr d \<Rightarrow> Inr d)"

text \<open>\<^verbatim>\<open>fmt.Fprintln(os.Stderr, err.Error()); os.Exit(1)\<close>.\<close>

definition fail_with :: "go_error \<Rightarrow> 'b world \<Rightarrow> int \<times> 'b world" where
  "fail_with err w = (1, emit (Stderr (Error_text err)) w)"

text \<open>Lines written to standard error, one after the other.\<close>

fun emit_lines :: "string list \<Rightarrow> 'b world \<Rightarrow> 'b world" where
  "emit_lines [] w = w"
| "emit_lines (l # ls) w = emit_lines ls (emit (Stderr l) w)"

text \<open>The last loop of \<^verbatim>\<open>main\<close>; leaving it, \<^verbatim>\<open>main\<close> returns and the exit code is 0.\<close>

fun check_required :: "string set \<Rightarrow> string list \<Rightarrow> 'b world \<Rightarrow> int \<times> 'b world" where
  "check_required have [] w = (0, w)"
| "check_required have (need # rest) w =
     (if need \<notin> have then (1, emit (Stderr (''missing model: '' @ need)) w)
      else check_required have rest w)"

text \<open>
  \<^verbatim>\<open>main\<close> of the probe: the result is the exit code. A panic ends the process with
  code 2 after the runtime has written its report.
\<close>

definition probe_main :: "golib \<Rightarrow> (string \<Rightarrow> string) \<Rightarrow> 'b transport \<Rightarrow> 'b world
    \<Rightarrow> int \<times> 'b world" where
  "probe_main L env T w =
     (case requireEnv L env ''OLLAMA_BASE_URL'' of
        Inl err \<Rightarrow> fail_with err w
      | Inr ollama \<Rightarrow>
     (case requireEnv L env ''REQUIRED_MODELS'' of
        Inl err \<Rightarrow> fail_with err w
      | Inr rawModels \<Rightarrow>
     (case parseModels L rawModels of
        Inl err \<Rightarrow> fail_with err w
      | Inr required \<Rightarrow>
     (case requireEnv L env ''REQUEST_TIMEOUT'' of
        Inl err \<Rightarrow> fail_with err w
      | Inr reqTimeoutStr \<Rightarrow>
     (case mustParseDuration L reqTimeoutStr ''REQUEST_TIMEOUT'' of
        Inl err \<Rightarrow> fail_with err w
      | Inr reqTimeout \<Rightarrow>
     (case listModels T ollama reqTimeout w of
        (Panic, w') \<Rightarrow> (2, emit_lines (PanicReport L) w')
      | (Return (Inl err), w') \<Rightarrow> fail_with err w'
      | (Return (Inr have), w') \<Rightarrow> check_required have required w'))))))"

subsection \<open>The configuration as the probe reads it\<close>

definition base_of :: "golib \<Rightarrow> (string \<Rightarrow> string) \<Rightarrow> string" where
  "base_of L env = TrimSpace L (env ''OLLAMA_BASE_URL'')"

definition required_of :: "golib \<Rightarrow> (string \<Rightarrow> string) \<Rightarrow> string list" where
  "required_of L env =
     Fields L (commas_to_spaces (TrimSpace L (TrimSpace L (env ''REQUIRED_MODELS''))))"

definition timeout_of :: "golib \<Rightarrow> (string \<Rightarrow> string) \<Rightarrow> go_error + duration" where
  "timeout_of L env = ParseDuration L (TrimSpace L (env ''REQUEST_TIMEOUT''))"

text \<open>
  The configuration passes validation: the base URL is not empty after trimming, the
  model list is set and parses to at least one entry, the timeout is set and parses to
  the duration \<open>tmo\<close>.
\<close>

definition config_valid :: "golib \<Rightarrow> (string \<Rightarrow> string) \<Rightarrow> duration \<Rightarrow> bool" where
  "config_valid L env tmo =
     (base_of L env \<noteq> '''' \<and>
      TrimSpace L (env ''REQUIRED_MODELS'') \<noteq> '''' \<and>
      required_of L env \<noteq> [] \<and>
      TrimSpace L (env ''REQUEST_TIMEOUT'') \<noteq> '''' \<and>
      timeout_of L env = Inr tmo)"

text \<open>
  The lines a trace writes to standard error (where the \<^verbatim>\<open>log\<close> package writes too), and
  the requests it makes.
\<close>

fun output_lines :: "event list \<Rightarrow> string list" where
  "output_lines [] = []"
| "output_lines (Stderr s # es) = s # output_lines es"
| "output_lines (Log s # es) = s # output_lines es"
| "output_lines (e # es) = output_lines es"

fun requests :: "event list \<Rightarrow> (site \<times> request) list" where
  "requests [] = []"
| "requests (Http t s rq res # es) = (s, rq) # requests es"
| "requests (e # es) = requests es"

section \<open>Fixtures for concrete runs\<close>

subsection \<open>A scripted backend\<close>

text \<open>
  The backend state is the list of answers still to give, each with its latency; once
  the script is used up the connection is refused. Every URL is accepted, and a
  nanosecond passes before each reading of the clock.
\<close>

definition scripted :: "((go_error + response) \<times> nat) list transport" where
  "scripted =
     \<lparr>url_ok = (\<lambda>u. True),
      roundtrip = (\<lambda>rq t b. case b of
          [] \<Rightarrow> (Inl (Lib ''connection refused''), 0, [])
        | (r, l) # b' \<Rightarrow> (r, l, b')),
      tick = (\<lambda>t b. 1)\<rparr>"

definition start :: "'b \<Rightarrow> 'b world" where
  "start b = \<lparr>clock = 0, backend = b, trace = []\<rparr>"

definition status_event :: "string \<Rightarrow> pullEvent" where
  "status_event s = \<lparr>Status = s, Error = '''', Digest = '''', Total = 0, Completed = 0\<rparr>"

definition error_event :: "string \<Rightarrow> string \<Rightarrow> pullEvent" where
  "error_event s e = \<lparr>Status = s, Error = e, Digest = '''', Total = 0, Completed = 0\<rparr>"

definition stream_response :: "decode_result list \<Rightarrow> response" where
  "stream_response es =
     \<lparr>StatusCode = 200, content = '''', as_tags = Inl (Lib ''json: cannot unmarshal''),
      as_events = map (Pair 1) es\<rparr>"

definition tags_response :: "string list \<Rightarrow> response" where
  "tags_response names =
     \<lparr>StatusCode = 200, content = '''', as_tags = Inr names, as_events = []\<rparr>"

definition demo_world :: "decode_result list \<Rightarrow> ((go_error + response) \<times> nat) list world" where
  "demo_world es = start [(Inr (stream_response es), 3)]"


definition retry_demo :: "((go_error + response) \<times> nat) list world" where
  "retry_demo = start
     [(Inr (tags_response []), 1),
      (Inr (tags_response [''a'']), 1),
      (Inr (stream_response [Event (error_event '''' ''no space'')]), 5),
      (Inr (tags_response [''a'']), 1),
      (Inr (tags_response [''a'', ''b'']), 1)]"

definition unreachable :: "((go_error + response) \<times> nat) list world" where
  "unreachable = start []"

definition ready_demo :: "((go_error + response) \<times> nat) list world" where
  "ready_demo = start
     [(Inr (tags_response []), 1),
      (Inr (tags_response [''a'', ''b'', ''c'']), 1),
      (Inr (tags_response [''a'', ''b'', ''c'']), 1)]"

definition probe_demo :: "((go_error + response) \<times> nat) list world" where
  "probe_demo = start [(Inr (tags_response [''b'', ''a'', ''c'']), 1)]"

subsection \<open>A cancelled context\<close>

text \<open>
  The client under a context that is already cancelled: every request fails at once with
  the \<^verbatim>\<open>url.Error\<close> that wraps \<^verbatim>\<open>context.Canceled\<close>.
\<close>

definition url_error :: "request \<Rightarrow> go_error \<Rightarrow> go_error" where
  "url_error rq err =
     Wrap ((if Method rq = ''GET'' then ''Get'' else ''Post'') @ '' \"'' @ URL rq @ ''\": '') err"

definition cancelled :: "unit transport" where
  "cancelled =
     \<lparr>url_ok = (\<lambda>u. True), roundtrip = (\<lambda>rq t b. (Inl (url_error rq Canceled), 0, b)),
      tick = (\<lambda>t b. 1)\<rparr>"

definition idle :: "unit world" where
  "idle = start ()"

text \<open>A cancellation that arrives while the pull stream is read.\<close>

definition cancel_demo :: "((go_error + response) \<times> nat) list world" where
  "cancel_demo = start
     [(Inr (tags_response []), 1),
      (Inr (tags_response []), 1),
      (Inr (stream_response [Event (status_event ''pulling manifest''), DecodeErr Canceled]), 5),
      (Inl (url_error (tags_request ''http://o'' 5) Canceled), 0)]"

subsection \<open>A stand-in for the library on ASCII input\<close>

definition is_space :: "char \<Rightarrow> bool" where
  "is_space c = (c = CHR '' '' \<or> c = CHR 0x09 \<or> c = CHR 0x0A \<or> c = CHR 0x0D)"

definition trim_ascii :: "string \<Rightarrow> string" where
  "trim_ascii s = rev (dropWhile is_space (rev (dropWhile is_space s)))"

fun fields_ascii :: "string \<Rightarrow> string \<Rightarrow> string list" where
  "fields_ascii cur [] = (if cur = [] then [] else [cur])"
| "fields_ascii cur (c # cs) =
     (if is_space c then (if cur = [] then fields_ascii [] cs else cur # fields_ascii [] cs)
      else fields_ascii (cur @ [c]) cs)"

definition demo_lib :: golib where
  "demo_lib =
     \<lparr>TrimSpace = trim_ascii, Fields = fields_ascii [],
      ParseDuration = (\<lambda>s. if s = ''5s'' then Inr (5 * Second)
                            else Inl (Lib ''time: invalid duration'')),
      Quote = (\<lambda>s. CHR 0x22 # s @ [CHR 0x22]),
      PanicReport =
        [''panic: runtime error: invalid memory address or nil pointer dereference'',
         ''[signal SIGSEGV: segmentation violation]'', [], ''goroutine 1 [running]:'']\<rparr>"

definition demo_env :: "string \<Rightarrow> string \<Rightarrow> string" where
  "demo_env models key =
     (if key = ''OLLAMA_BASE_URL'' then '' http://o ''
      else if key = ''REQUIRED_MODELS'' then models
      else if key = ''REQUEST_TIMEOUT'' then ''5s''
      else '''')"

section \<open>Properties of pullModel\<close>

lemma sdiv_2xx: "(c::int) sdiv 100 = 2 \<longleftrightarrow> 200 \<le> c \<and> c < 300"
  by (auto simp: signed_divide_int_def sgn_if)

lemma Do_Return:
  assumes "url_ok T (URL rq)"
  shows "\<exists>w1. Do T s rq w = (Return (fst (roundtrip T rq (clock w) (backend w))), w1)
           \<and> clock w \<le> clock w1
           \<and> trace w1 = trace w @ [Http (clock w) s rq (fst (roundtrip T rq (clock w) (backend w)))]"
proof (cases "roundtrip T rq (clock w) (backend w)")
  case (fields res lat b')
  with assms show ?thesis
    by (simp add: Do_def emit_def elapse_def)
qed

lemma decode_loop_progress:
  "list_all progress pre \<Longrightarrow>
     \<exists>w1. decode_loop model (pre @ rest) w = decode_loop model rest w1"
proof (induction pre arbitrary: w)
  case Nil
  then show ?case by auto
next
  case (Cons a pre)
  obtain d r where a: "a = (d, r)" by (cases a)
  from Cons.prems a obtain ev where r: "r = Event ev" "Error ev = ''''" "Status ev \<noteq> ''success''"
    by (cases r) (auto simp: progress_def)
  from Cons.prems have "list_all progress pre" by simp
  from Cons.IH [OF this] show ?case
    by (simp add: a r Let_def)
qed

lemma decode_loop_first_success:
  assumes "list_all progress pre" "ok_event x" "is_success x"
  shows "\<exists>w'. decode_loop model (pre @ x # rest) w = (None, rest, w')"
proof -
  obtain d r where x: "x = (d, r)" by (cases x)
  from assms x obtain ev where r: "r = Event ev" "Error ev = ''''" "Status ev = ''success''"
    by (cases r) auto
  from decode_loop_progress [OF assms(1)] obtain w1
    where "decode_loop model (pre @ x # rest) w = decode_loop model (x # rest) w1"
    by blast
  then show ?thesis by (simp add: x r)
qed

lemma decode_loop_first_error:
  assumes "list_all progress pre" "Error ev \<noteq> ''''"
  shows "\<exists>w'. decode_loop model (pre @ (d, Event ev) # rest) w
           = (Some (New (''pull '' @ model @ '': '' @ Error ev)), rest, w')"
proof -
  from decode_loop_progress [OF assms(1)] obtain w1
    where "decode_loop model (pre @ (d, Event ev) # rest) w
             = decode_loop model ((d, Event ev) # rest) w1"
    by blast
  then show ?thesis using assms(2) by simp
qed

lemma decode_loop_all_progress:
  assumes "list_all progress es"
  shows "\<exists>w'. decode_loop model es w = (Some (stream_ended model), [], w')"
  using decode_loop_progress [OF assms, of model "[]" w] by auto

lemma decode_loop_explicit_EOF:
  assumes "list_all progress pre"
  shows "\<exists>w'. decode_loop model (pre @ (d, DecodeErr EOF) # rest) w
           = (Some (stream_ended model), rest, w')"
proof -
  from decode_loop_progress [OF assms] obtain w1
    where "decode_loop model (pre @ (d, DecodeErr EOF) # rest) w
             = decode_loop model ((d, DecodeErr EOF) # rest) w1"
    by blast
  then show ?thesis by simp
qed

lemma pullModel_stream:
  assumes "streaming T base tmo model w resp"
  shows "\<exists>w1. pullModel T base tmo model w
           = (Return (fst (decode_loop model (as_events resp) w1)),
              snd (snd (decode_loop model (as_events resp) w1)))"
proof -
  from assms have ok: "url_ok T (URL (pull_request base tmo model))"
    and rt: "fst (roundtrip T (pull_request base tmo model) (clock w) (backend w)) = Inr resp"
    and st: "StatusCode resp sdiv 100 = 2"
    by (simp_all add: streaming_def pull_request_def)
  from Do_Return [OF ok, of PullSite w] rt obtain w1
    where "Do T PullSite (pull_request base tmo model) w = (Return (Inr resp), w1)"
    by auto
  then have "pullModel T base tmo model w
           = (Return (fst (decode_loop model (as_events resp) w1)),
              snd (snd (decode_loop model (as_events resp) w1)))"
    using st by (simp add: pullModel_def split: prod.splits)
  then show ?thesis ..
qed

text \<open>
  C1 (amended). Whenever the stream holds a decoded event whose status is \<open>success\<close>,
  and that event and every item before it are decoded events with an empty error field,
  \<open>pullModel\<close> returns nil, and the decode loop leaves unread exactly what follows the
  first event with status \<open>success\<close>, whatever it is.
\<close>

theorem pullModel_success_stops:
  fixes T :: "'b transport"
  assumes "streaming T base tmo model w resp"
    and "as_events resp = pre @ x # rest"
    and "list_all ok_event pre" and "ok_event x" and "is_success x"
  shows "fst (pullModel T base tmo model w) = Return None
       \<and> (\<forall>w1 :: 'b world. fst (snd (decode_loop model (as_events resp) w1))
              = tl (dropWhile (\<lambda>y. \<not> is_success y) (as_events resp)))"
proof -
  let ?es = "as_events resp"
  let ?pre = "takeWhile (\<lambda>y. \<not> is_success y) ?es"
  let ?suf = "dropWhile (\<lambda>y. \<not> is_success y) ?es"
  have all_ok: "list_all ok_event (pre @ [x])"
    using assms(3,4) by simp
  have "x \<in> set ?es" using assms(2) by simp
  with assms(5) have ne: "?suf \<noteq> []"
    by (auto simp: dropWhile_eq_Nil_conv)
  then obtain y ys where suf: "?suf = y # ys" by (cases ?suf) auto
  have y_succ: "is_success y"
    using hd_dropWhile [OF ne] suf by simp
  have split: "?es = ?pre @ y # ys"
    using takeWhile_dropWhile_id [of "\<lambda>y. \<not> is_success y" ?es] suf by simp
  have every: "\<forall>z \<in> set ?es. z = x \<or> z \<in> set pre \<or> z \<in> set rest"
    using assms(2) by auto
  have pre_sub: "set (?pre @ [y]) \<subseteq> set (pre @ [x])"
  proof -
    have len: "length ?pre \<le> length pre"
    proof (rule ccontr)
      assume "\<not> length ?pre \<le> length pre"
      then have "length pre < length ?pre" by simp
      then have "?pre ! length pre = ?es ! length pre"
        by (simp add: takeWhile_nth)
      moreover have "?es ! length pre = x" using assms(2) by simp
      moreover have "?pre ! length pre \<in> set ?pre"
        using \<open>length pre < length ?pre\<close> by simp
      ultimately have "x \<in> set ?pre" by simp
      then have "\<not> is_success x" by (rule set_takeWhileD [THEN conjunct2])
      with assms(5) show False by simp
    qed
    have "?pre @ [y] = take (Suc (length ?pre)) ?es"
      using split by (metis append.assoc append_Cons append_Nil append_eq_conv_conj length_append_singleton)
    also have "set \<dots> \<subseteq> set (take (Suc (length pre)) ?es)"
      using len by (meson Suc_le_mono set_take_subset_set_take)
    also have "take (Suc (length pre)) ?es = pre @ [x]"
      using assms(2) by simp
    finally show ?thesis .
  qed
  have pre_ok: "list_all progress ?pre"
  proof -
    have "\<forall>z \<in> set ?pre. ok_event z \<and> \<not> is_success z"
      using pre_sub all_ok by (auto simp: list_all_iff dest: set_takeWhileD)
    then show ?thesis by (simp add: list_all_iff progress_def)
  qed
  have y_ok: "ok_event y"
    using pre_sub all_ok by (auto simp: list_all_iff)
  have loop: "\<exists>w'. decode_loop model ?es w1 = (None, ys, w')" for w1 :: "'b world"
    using decode_loop_first_success [OF pre_ok y_ok y_succ, of model ys w1] split by simp
  from pullModel_stream [OF assms(1)] obtain w1
    where "pullModel T base tmo model w
           = (Return (fst (decode_loop model ?es w1)), snd (snd (decode_loop model ?es w1)))"
    by blast
  moreover from loop [of w1] have "fst (decode_loop model ?es w1) = None" by auto
  ultimately have "fst (pullModel T base tmo model w) = Return None" by simp
  moreover have "\<forall>w1 :: 'b world. fst (snd (decode_loop model ?es w1)) = tl ?suf"
  proof
    fix w1 :: "'b world"
    from loop [of w1] show "fst (snd (decode_loop model ?es w1)) = tl ?suf"
      by (auto simp: suf)
  qed
  ultimately show ?thesis by simp
qed

theorem pullModel_success_stops_witness:
  "streaming scripted ''http://o'' 5 ''m''
      (demo_world [Event (status_event ''pulling''), Event (status_event ''success''),
                   DecodeErr (Lib ''invalid character'')])
      (stream_response [Event (status_event ''pulling''), Event (status_event ''success''),
                        DecodeErr (Lib ''invalid character'')])
   \<and> fst (pullModel scripted ''http://o'' 5 ''m''
        (demo_world [Event (status_event ''pulling''), Event (status_event ''success''),
                     DecodeErr (Lib ''invalid character'')])) = Return None"
  using pullModel_success_stops [of scripted "''http://o''" 5 "''m''"
      "demo_world [Event (status_event ''pulling''), Event (status_event ''success''),
                   DecodeErr (Lib ''invalid character'')]"
      "stream_response [Event (status_event ''pulling''), Event (status_event ''success''),
                        DecodeErr (Lib ''invalid character'')]"
      "[(1, Event (status_event ''pulling''))]" "(1, Event (status_event ''success''))"
      "[(1, DecodeErr (Lib ''invalid character''))]"]
  by (simp add: streaming_def scripted_def demo_world_def start_def stream_response_def
      status_event_def sdiv_2xx)

text \<open>
  C1 as stated asks an empty error field of the earlier events only. An event with
  status \<open>success\<close> that also carries an error makes \<open>pullModel\<close> fail: the error field is
  tested first.
\<close>

theorem pullModel_success_with_error_counterexample:
  "streaming scripted ''http://o'' 5 ''m''
      (demo_world [Event (error_event ''success'' ''boom'')])
      (stream_response [Event (error_event ''success'' ''boom'')])
   \<and> is_success (1, Event (error_event ''success'' ''boom''))
   \<and> as_events (stream_response [Event (error_event ''success'' ''boom'')])
        = [] @ (1, Event (error_event ''success'' ''boom'')) # []
   \<and> fst (pullModel scripted ''http://o'' 5 ''m''
        (demo_world [Event (error_event ''success'' ''boom'')]))
        = Return (Some (New ''pull m: boom''))"
  by (simp add: streaming_def scripted_def demo_world_def start_def stream_response_def
      error_event_def sdiv_2xx pullModel_def Do_def pull_request_def emit_def elapse_def)

text \<open>
  C2. When the stream ends (the decoder reports \<^verbatim>\<open>io.EOF\<close>, or the events run out) after
  decoded events that all have an empty error field and a status other than \<open>success\<close>,
  \<open>pullModel\<close> fails with \<open>pull <model>: stream ended without success\<close>.
\<close>

theorem pullModel_no_success_fails:
  fixes T :: "'b transport"
  assumes "streaming T base tmo model w resp"
    and "as_events resp = pre \<or> as_events resp = pre @ (d, DecodeErr EOF) # rest"
    and "list_all progress pre"
  shows "fst (pullModel T base tmo model w)
           = Return (Some (New (''pull '' @ model @ '': stream ended without success'')))"
proof -
  from pullModel_stream [OF assms(1)] obtain w1
    where pm: "pullModel T base tmo model w
           = (Return (fst (decode_loop model (as_events resp) w1)),
              snd (snd (decode_loop model (as_events resp) w1)))"
    by blast
  from assms(2) have "fst (decode_loop model (as_events resp) w1) = Some (stream_ended model)"
  proof
    assume "as_events resp = pre"
    with decode_loop_all_progress [OF assms(3), of model w1] show ?thesis by auto
  next
    assume "as_events resp = pre @ (d, DecodeErr EOF) # rest"
    with decode_loop_explicit_EOF [OF assms(3), of model d rest w1] show ?thesis by auto
  qed
  with pm show ?thesis by (simp add: stream_ended_def)
qed

theorem pullModel_no_success_fails_witness:
  "streaming scripted ''http://o'' 5 ''m''
      (demo_world [Event (status_event ''pulling''), Event (status_event ''verifying'')])
      (stream_response [Event (status_event ''pulling''), Event (status_event ''verifying'')])
   \<and> list_all progress [(1, Event (status_event ''pulling'')), (1, Event (status_event ''verifying''))]
   \<and> fst (pullModel scripted ''http://o'' 5 ''m''
        (demo_world [Event (status_event ''pulling''), Event (status_event ''verifying'')]))
       = Return (Some (New ''pull m: stream ended without success''))"
  using pullModel_no_success_fails [of scripted "''http://o''" 5 "''m''"
      "demo_world [Event (status_event ''pulling''), Event (status_event ''verifying'')]"
      "stream_response [Event (status_event ''pulling''), Event (status_event ''verifying'')]"
      "[(1, Event (status_event ''pulling'')), (1, Event (status_event ''verifying''))]"]
  by (simp add: streaming_def scripted_def demo_world_def start_def stream_response_def
      status_event_def sdiv_2xx progress_def)

text \<open>
  C3. At the first decoded event with a non-empty error field, no event before it having
  status \<open>success\<close>, \<open>pullModel\<close> fails with \<open>pull <model>: <error>\<close>, whatever the status
  of that event, and nothing after it is read.
\<close>

theorem pullModel_error_event_fails:
  fixes T :: "'b transport"
  assumes "streaming T base tmo model w resp"
    and "as_events resp = pre @ (d, Event ev) # rest"
    and "list_all progress pre"
    and "Error ev \<noteq> ''''"
  shows "fst (pullModel T base tmo model w)
           = Return (Some (New (''pull '' @ model @ '': '' @ Error ev)))
       \<and> (\<forall>w1 :: 'b world. fst (snd (decode_loop model (as_events resp) w1)) = rest)"
proof -
  from pullModel_stream [OF assms(1)] obtain w1
    where pm: "pullModel T base tmo model w
           = (Return (fst (decode_loop model (as_events resp) w1)),
              snd (snd (decode_loop model (as_events resp) w1)))"
    by blast
  have loop: "\<exists>w'. decode_loop model (as_events resp) w2
           = (Some (New (''pull '' @ model @ '': '' @ Error ev)), rest, w')" for w2 :: "'b world"
    using decode_loop_first_error [OF assms(3,4), of model d rest w2] assms(2) by simp
  from loop [of w1] pm
  have "fst (pullModel T base tmo model w)
           = Return (Some (New (''pull '' @ model @ '': '' @ Error ev)))"
    by auto
  moreover have "\<forall>w2 :: 'b world. fst (snd (decode_loop model (as_events resp) w2)) = rest"
  proof
    fix w2 :: "'b world"
    from loop [of w2] show "fst (snd (decode_loop model (as_events resp) w2)) = rest" by auto
  qed
  ultimately show ?thesis by simp
qed

theorem pullModel_error_event_fails_witness:
  "streaming scripted ''http://o'' 5 ''m''
      (demo_world [Event (status_event ''pulling''), Event (error_event ''success'' ''no space''),
                   Event (status_event ''success'')])
      (stream_response [Event (status_event ''pulling''), Event (error_event ''success'' ''no space''),
                   Event (status_event ''success'')])
   \<and> fst (pullModel scripted ''http://o'' 5 ''m''
        (demo_world [Event (status_event ''pulling''), Event (error_event ''success'' ''no space''),
                   Event (status_event ''success'')]))
       = Return (Some (New ''pull m: no space''))"
  using pullModel_error_event_fails [of scripted "''http://o''" 5 "''m''"
      "demo_world [Event (status_event ''pulling''), Event (error_event ''success'' ''no space''),
                   Event (status_event ''success'')]"
      "stream_response [Event (status_event ''pulling''), Event (error_event ''success'' ''no space''),
                   Event (status_event ''success'')]"
      "[(1, Event (status_event ''pulling''))]" 1 "error_event ''success'' ''no space''"
      "[(1, Event (status_event ''success''))]"]
  by (simp add: streaming_def scripted_def demo_world_def start_def stream_response_def
      status_event_def error_event_def sdiv_2xx progress_def)

section \<open>Properties of ensureAll\<close>

lemma pull_requests_append [simp]:
  "pull_requests (xs @ ys) = pull_requests xs @ pull_requests ys"
  by (induction xs rule: pull_requests.induct) simp_all


lemma trace_emit [simp]: "trace (emit e w) = trace w @ [e]"
  by (simp add: emit_def)

lemma trace_elapse [simp]: "trace (elapse d w) = trace w"
  by (simp add: elapse_def)

lemma decode_loop_pull_requests:
  "decode_loop model es w = (r, rest, w') \<Longrightarrow> pull_requests (trace w') = pull_requests (trace w)"
proof (induction model es w rule: decode_loop.induct)
  case (3 model d ev rest w)
  then show ?case
    by (fastforce split: if_splits simp: Let_def)
qed (auto split: if_splits)

lemma Do_cases:
  "Do T s rq w = (r, w') \<Longrightarrow>
     (r = Panic \<and> w' = w \<and> \<not> url_ok T (URL rq)) \<or>
     (\<exists>res. r = Return res \<and> url_ok T (URL rq) \<and> clock w \<le> clock w'
         \<and> fst (roundtrip T rq (clock w) (backend w)) = res
         \<and> trace w' = trace w @ [Http (clock w) s rq res])"
  by (auto simp: Do_def split: if_splits prod.splits)

lemma pullModel_Panic:
  "pullModel T base tmo m w = (Panic, w') \<Longrightarrow> w' = w"
  unfolding pullModel_def
  by (auto split: prod.splits outcome.splits sum.splits if_splits dest!: Do_cases)

lemma pullModel_pull_requests:
  "pullModel T base tmo m w = (Return r, w') \<Longrightarrow>
     pull_requests (trace w') = pull_requests (trace w) @ [pull_request base tmo m]"
  unfolding pullModel_def
  by (auto split: prod.splits outcome.splits sum.splits if_splits
      dest!: Do_cases decode_loop_pull_requests)








section \<open>The retry loop: unfolding, induction and traces\<close>

lemma wait_loop_expired:
  "deadline < clock (reading T w) \<Longrightarrow>
     wait_loop T base rt required deadline lasterr w
       = (Return (Some (case lasterr of None \<Rightarrow> New ''startup timeout'' | Some e \<Rightarrow> e)),
          reading T w)"
  by (subst wait_loop.simps) (simp add: Now_reading)

lemma wait_loop_ping_panic:
  "\<not> deadline < clock (reading T w) \<Longrightarrow> pingOllama T base rt (reading T w) = (Panic, w1) \<Longrightarrow>
     wait_loop T base rt required deadline lasterr w = (Panic, w1)"
  by (subst wait_loop.simps) (simp add: Now_reading)

lemma wait_loop_ping_failed:
  "\<not> deadline < clock (reading T w) \<Longrightarrow>
   pingOllama T base rt (reading T w) = (Return (Some err), w1) \<Longrightarrow>
     wait_loop T base rt required deadline lasterr w
       = wait_loop T base rt required deadline
           (Some (Wrap ''ollama not responding: '' err)) (Sleep_for backoff w1)"
  by (subst wait_loop.simps) (simp add: Now_reading)

lemma wait_loop_ensure_panic:
  "\<not> deadline < clock (reading T w) \<Longrightarrow>
   pingOllama T base rt (reading T w) = (Return None, w1) \<Longrightarrow>
   ensureAll T base rt required w1 = (Panic, w2) \<Longrightarrow>
     wait_loop T base rt required deadline lasterr w = (Panic, w2)"
  by (subst wait_loop.simps) (simp add: Now_reading)

lemma wait_loop_ensure_failed:
  "\<not> deadline < clock (reading T w) \<Longrightarrow>
   pingOllama T base rt (reading T w) = (Return None, w1) \<Longrightarrow>
   ensureAll T base rt required w1 = (Return (Some err), w2) \<Longrightarrow>
     wait_loop T base rt required deadline lasterr w
       = wait_loop T base rt required deadline
           (Some (Wrap ''ensure models: '' err)) (Sleep_for backoff w2)"
  by (subst wait_loop.simps) (simp add: Now_reading)

lemma wait_loop_ready:
  "\<not> deadline < clock (reading T w) \<Longrightarrow>
   pingOllama T base rt (reading T w) = (Return None, w1) \<Longrightarrow>
   ensureAll T base rt required w1 = (Return None, w2) \<Longrightarrow>
     wait_loop T base rt required deadline lasterr w = (Return None, w2)"
  by (subst wait_loop.simps) (simp add: Now_reading)

lemma waitUntilReady_loop:
  "waitUntilReady T base rt startupLimit required w
     = wait_loop T base rt required (clock (reading T w) + startupLimit) None (reading T w)"
  by (simp add: waitUntilReady_def Now_reading)

lemma wait_loop_iterations [case_names expired ping_panic ping_failed ensure_panic ensure_failed ready]:
  assumes expired: "\<And>T base rt required deadline lasterr w.
          deadline < clock (reading T w) \<Longrightarrow> P T base rt required deadline lasterr w"
    and ping_panic: "\<And>T base rt required deadline lasterr w w1.
          \<not> deadline < clock (reading T w) \<Longrightarrow>
          pingOllama T base rt (reading T w) = (Panic, w1) \<Longrightarrow>
          P T base rt required deadline lasterr w"
    and ping_failed: "\<And>T base rt required deadline lasterr w w1 err.
          \<not> deadline < clock (reading T w) \<Longrightarrow>
          pingOllama T base rt (reading T w) = (Return (Some err), w1) \<Longrightarrow>
          P T base rt required deadline (Some (Wrap ''ollama not responding: '' err))
            (Sleep_for backoff w1) \<Longrightarrow>
          P T base rt required deadline lasterr w"
    and ensure_panic: "\<And>T base rt required deadline lasterr w w1 w2.
          \<not> deadline < clock (reading T w) \<Longrightarrow>
          pingOllama T base rt (reading T w) = (Return None, w1) \<Longrightarrow>
          ensureAll T base rt required w1 = (Panic, w2) \<Longrightarrow>
          P T base rt required deadline lasterr w"
    and ensure_failed: "\<And>T base rt required deadline lasterr w w1 w2 err.
          \<not> deadline < clock (reading T w) \<Longrightarrow>
          pingOllama T base rt (reading T w) = (Return None, w1) \<Longrightarrow>
          ensureAll T base rt required w1 = (Return (Some err), w2) \<Longrightarrow>
          P T base rt required deadline (Some (Wrap ''ensure models: '' err))
            (Sleep_for backoff w2) \<Longrightarrow>
          P T base rt required deadline lasterr w"
    and ready: "\<And>T base rt required deadline lasterr w w1 w2.
          \<not> deadline < clock (reading T w) \<Longrightarrow>
          pingOllama T base rt (reading T w) = (Return None, w1) \<Longrightarrow>
          ensureAll T base rt required w1 = (Return None, w2) \<Longrightarrow>
          P T base rt required deadline lasterr w"
  shows "P T base rt required deadline lasterr w"
proof (induction T base rt required deadline lasterr w rule: wait_loop.induct)
  case (1 T base rt required deadline lasterr w)
  have now: "(clock (reading T w), reading T w) = Now T w"
    by (simp add: Now_reading)
  show ?case
  proof (cases "deadline < clock (reading T w)")
    case True
    then show ?thesis by (rule expired)
  next
    case False
    obtain o1 w1 where p: "pingOllama T base rt (reading T w) = (o1, w1)"
      by (cases "pingOllama T base rt (reading T w)")
    show ?thesis
    proof (cases o1)
      case Panic
      with p False show ?thesis by (auto intro: ping_panic)
    next
      case (Return r1)
      show ?thesis
      proof (cases r1)
        case (Some err)
        have "P T base rt required deadline (Some (Wrap ''ollama not responding: '' err))
                (Sleep_for backoff w1)"
          using "1.IH"(2) [OF now False p [symmetric] Return Some] .
        with False p Return Some show ?thesis by (auto intro: ping_failed)
      next
        case None
        obtain o2 w2 where e: "ensureAll T base rt required w1 = (o2, w2)"
          by (cases "ensureAll T base rt required w1")
        show ?thesis
        proof (cases o2)
          case Panic
          with False p Return None e show ?thesis by (auto intro: ensure_panic)
        next
          case r2: (Return r2)
          show ?thesis
          proof (cases r2)
            case n2: None
            with False p Return None e r2 show ?thesis by (auto intro: ready)
          next
            case s2: (Some err)
            have "P T base rt required deadline (Some (Wrap ''ensure models: '' err))
                    (Sleep_for backoff w2)"
              using "1.IH"(1) [OF now False p [symmetric] Return None e [symmetric] r2 s2] .
            with False p Return None e r2 s2 show ?thesis by (auto intro: ensure_failed)
          qed
        qed
      qed
    qed
  qed
qed


lemma probe_times_append [simp]:
  "probe_times (xs @ ys) = probe_times xs @ probe_times ys"
  by (induction xs rule: probe_times.induct) simp_all

lemma actions_append [simp]: "actions (xs @ ys) = actions xs @ actions ys"
  by (induction xs rule: actions.induct) simp_all

lemma trace_Sleep_for [simp]: "trace (Sleep_for d w) = trace w @ [Sleep d]"
  by (simp add: Sleep_for_def emit_def)

lemma decode_loop_quiet:
  "decode_loop model es w = (r, rest, w') \<Longrightarrow>
     probe_times (trace w') = probe_times (trace w) \<and> actions (trace w') = actions (trace w)"
proof (induction model es w rule: decode_loop.induct)
  case (3 model d ev rest w)
  then show ?case
    by (fastforce split: if_splits simp: Let_def)
qed (auto split: if_splits)

lemma pullModel_actions:
  "pullModel T base tmo m w = (r, w') \<Longrightarrow>
     probe_times (trace w') = probe_times (trace w) \<and>
     actions (trace w') = actions (trace w) @ (if r = Panic then [] else [Retrieval])"
  unfolding pullModel_def
  by (auto split: prod.splits outcome.splits sum.splits if_splits
      dest!: Do_cases decode_loop_quiet)

lemma listModels_actions:
  "listModels T base tmo w = (r, w') \<Longrightarrow>
     probe_times (trace w') = probe_times (trace w) \<and>
     actions (trace w') = actions (trace w) @ (if r = Panic then [] else [Inventory])"
  unfolding listModels_def
  by (auto split: prod.splits outcome.splits sum.splits if_splits dest!: Do_cases)

lemma pingOllama_actions:
  "pingOllama T base tmo w = (r, w') \<Longrightarrow>
     probe_times (trace w') = probe_times (trace w) @ (if r = Panic then [] else [clock w]) \<and>
     actions (trace w') = actions (trace w) @
       (case r of Panic \<Rightarrow> [] | Return None \<Rightarrow> [ProbeOk] | Return (Some err) \<Rightarrow> [ProbeFail])"
  unfolding pingOllama_def
  by (auto split: prod.splits outcome.splits sum.splits if_splits dest!: Do_cases)

lemma pull_each_actions:
  "pull_each T base tmo ms w = (r, w') \<Longrightarrow>
     probe_times (trace w') = probe_times (trace w) \<and>
     (\<exists>k. actions (trace w') = actions (trace w) @ replicate k Retrieval)"
proof (induction ms arbitrary: w)
  case Nil
  then show ?case by simp
next
  case (Cons m ms)
  let ?w0 = "emit (Log (''pulling missing model: '' @ m)) w"
  obtain o1 w1 where pm: "pullModel T base tmo m ?w0 = (o1, w1)"
    by (cases "pullModel T base tmo m ?w0")
  from pullModel_actions [OF pm]
  have pt: "probe_times (trace w1) = probe_times (trace w)"
    and ac: "actions (trace w1) = actions (trace w) @ (if o1 = Panic then [] else [Retrieval])"
    by simp_all
  show ?case
  proof (cases "o1 = Return None")
    case True
    with pm Cons.prems have "pull_each T base tmo ms w1 = (r, w')" by simp
    from Cons.IH [OF this] obtain k where
      "probe_times (trace w') = probe_times (trace w1)"
      "actions (trace w') = actions (trace w1) @ replicate k Retrieval"
      by blast
    with pt ac True have "probe_times (trace w') = probe_times (trace w) \<and>
       actions (trace w') = actions (trace w) @ replicate (Suc k) Retrieval"
      by simp
    then show ?thesis by blast
  next
    case False
    with pm Cons.prems have w': "w' = w1"
      by (auto split: outcome.splits option.splits)
    have "(if o1 = Panic then [] else [Retrieval]) = replicate (if o1 = Panic then 0 else 1) Retrieval"
      by simp
    with pt ac w' show ?thesis by metis
  qed
qed

lemma ensureAll_actions:
  "ensureAll T base tmo required w = (r, w') \<Longrightarrow>
     probe_times (trace w') = probe_times (trace w) \<and>
     (actions (trace w') = actions (trace w) \<and> r = Panic \<or>
      (\<exists>k. actions (trace w') = actions (trace w) @ Inventory # replicate k Retrieval))"
proof -
  assume run: "ensureAll T base tmo required w = (r, w')"
  obtain o1 w1 where lm: "listModels T base tmo w = (o1, w1)"
    by (cases "listModels T base tmo w")
  note la = listModels_actions [OF lm]
  show ?thesis
  proof (cases o1)
    case Panic
    with run lm la show ?thesis by (simp add: ensureAll_def)
  next
    case (Return x)
    show ?thesis
    proof (cases x)
      case (Inl err)
      with run lm la Return have "w' = w1" by (simp add: ensureAll_def)
      with la Return have "probe_times (trace w') = probe_times (trace w) \<and>
          actions (trace w') = actions (trace w) @ Inventory # replicate 0 Retrieval"
        by simp
      then show ?thesis by blast
    next
      case (Inr inventory)
      with run lm Return
      have "pull_each T base tmo (collect_missing inventory required []) w1 = (r, w')"
        by (simp add: ensureAll_def)
      from pull_each_actions [OF this] obtain k where
        "probe_times (trace w') = probe_times (trace w1)"
        "actions (trace w') = actions (trace w1) @ replicate k Retrieval"
        by blast
      with la Return have "probe_times (trace w') = probe_times (trace w) \<and>
          actions (trace w') = actions (trace w) @ Inventory # replicate k Retrieval"
        by simp
      then show ?thesis by blast
    qed
  qed
qed


lemma follows_retrievals:
  "a = Inventory \<or> a = Retrieval \<Longrightarrow> successively follows (a # replicate k Retrieval)"
  by (induction k arbitrary: a) auto

lemma follows_ensure: "successively follows (ProbeOk # Inventory # replicate k Retrieval)"
  using follows_retrievals [of Inventory k] by simp

lemma last_ensure:
  "last (ProbeOk # Inventory # replicate k Retrieval) = Inventory \<or>
   last (ProbeOk # Inventory # replicate k Retrieval) = Retrieval"
  by (cases k) simp_all

lemma follows_iteration:
  assumes "successively follows as" "as = [] \<or> is_probe (hd as)"
  shows "successively follows ((ProbeOk # Inventory # replicate k Retrieval) @ Pause # as)"
proof -
  have "successively follows (Pause # as)"
    using assms by (cases as) (auto elim: is_probe.elims)
  moreover have "follows (last (ProbeOk # Inventory # replicate k Retrieval)) Pause"
    using last_ensure [of k] by auto
  ultimately show ?thesis
    using follows_ensure [of k] by (simp only: successively_append_iff) simp
qed

lemma follows_failed_probe:
  assumes "successively follows as" "as = [] \<or> is_probe (hd as)"
  shows "successively follows (ProbeFail # Pause # as)"
  using assms by (cases as) (auto elim: is_probe.elims)

lemma wait_loop_actions:
  "wait_loop T base rt required deadline lasterr w = (r, w') \<Longrightarrow>
     \<exists>as. actions (trace w') = actions (trace w) @ as \<and> successively follows as
        \<and> (as = [] \<or> is_probe (hd as))"
proof (induction T base rt required deadline lasterr w rule: wait_loop_iterations)
  case (expired T base rt required deadline lasterr w)
  then show ?case by (auto simp: wait_loop_expired)
next
  case (ping_panic T base rt required deadline lasterr w w1)
  with pingOllama_actions [OF ping_panic.hyps(2)] show ?case
    by (simp add: wait_loop_ping_panic)
next
  case (ping_failed T base rt required deadline lasterr w w1 err)
  from ping_failed.prems ping_failed.hyps
  have "wait_loop T base rt required deadline (Some (Wrap ''ollama not responding: '' err))
          (Sleep_for backoff w1) = (r, w')"
    by (simp add: wait_loop_ping_failed)
  from ping_failed.IH [OF this] obtain as where
    as: "actions (trace w') = actions (trace (Sleep_for backoff w1)) @ as"
        "successively follows as" "as = [] \<or> is_probe (hd as)"
    by blast
  from pingOllama_actions [OF ping_failed.hyps(2)] as(1)
  have "actions (trace w') = actions (trace w) @ (ProbeFail # Pause # as)"
    by simp
  moreover have "is_probe (hd (ProbeFail # Pause # as))" by simp
  ultimately show ?case
    using follows_failed_probe [OF as(2,3)] by blast
next
  case (ensure_panic T base rt required deadline lasterr w w1 w2)
  from ensure_panic.prems ensure_panic.hyps have w': "w' = w2"
    by (simp add: wait_loop_ensure_panic)
  from ensureAll_actions [OF ensure_panic.hyps(3)]
  consider "actions (trace w2) = actions (trace w1)"
    | k where "actions (trace w2) = actions (trace w1) @ Inventory # replicate k Retrieval"
    by blast
  then show ?case
  proof cases
    case 1
    with pingOllama_actions [OF ensure_panic.hyps(2)] w'
    have "actions (trace w') = actions (trace w) @ [ProbeOk] \<and> successively follows [ProbeOk]
        \<and> is_probe (hd [ProbeOk])"
      by simp
    then show ?thesis by blast
  next
    case 2
    with pingOllama_actions [OF ensure_panic.hyps(2)] w'
    have "actions (trace w') = actions (trace w) @ (ProbeOk # Inventory # replicate k Retrieval)
        \<and> is_probe (hd (ProbeOk # Inventory # replicate k Retrieval))"
      by simp
    with follows_ensure [of k] show ?thesis by blast
  qed
next
  case (ensure_failed T base rt required deadline lasterr w w1 w2 err)
  from ensure_failed.prems ensure_failed.hyps
  have "wait_loop T base rt required deadline (Some (Wrap ''ensure models: '' err))
          (Sleep_for backoff w2) = (r, w')"
    by (simp add: wait_loop_ensure_failed)
  from ensure_failed.IH [OF this] obtain as where
    as: "actions (trace w') = actions (trace (Sleep_for backoff w2)) @ as"
        "successively follows as" "as = [] \<or> is_probe (hd as)"
    by blast
  from ensureAll_actions [OF ensure_failed.hyps(3)] obtain k where
    "actions (trace w2) = actions (trace w1) @ Inventory # replicate k Retrieval"
    by auto
  with pingOllama_actions [OF ensure_failed.hyps(2)] as(1)
  have "actions (trace w')
          = actions (trace w) @ ((ProbeOk # Inventory # replicate k Retrieval) @ Pause # as)"
    by simp
  moreover have "is_probe (hd ((ProbeOk # Inventory # replicate k Retrieval) @ Pause # as))"
    by simp
  ultimately show ?case
    using follows_iteration [OF as(2,3), of k] by blast
next
  case (ready T base rt required deadline lasterr w w1 w2)
  from ready.prems ready.hyps have w': "w' = w2"
    by (simp add: wait_loop_ready)
  from ensureAll_actions [OF ready.hyps(3)] obtain k where
    "actions (trace w2) = actions (trace w1) @ Inventory # replicate k Retrieval"
    by auto
  with pingOllama_actions [OF ready.hyps(2)] w'
  have "actions (trace w') = actions (trace w) @ (ProbeOk # Inventory # replicate k Retrieval)
      \<and> is_probe (hd (ProbeOk # Inventory # replicate k Retrieval))"
    by simp
  with follows_ensure [of k] show ?case by blast
qed

section \<open>Concrete runs of the retry loop\<close>

lemmas run_defs = waitUntilReady_def wait_loop.simps Now_def Let_def pingOllama_def ensureAll_def
  listModels_def pullModel_def Do_def scripted_def start_def Sleep_for_def emit_def elapse_def
  backoff_def Second_def tags_request_def pull_request_def tags_response_def stream_response_def
  status_event_def error_event_def sdiv_2xx


lemma retry_run:
  "fst (waitUntilReady scripted ''http://o'' 5 (10 * Second) [''a'', ''b''] retry_demo) = Return None
   \<and> actions (trace (snd (waitUntilReady scripted ''http://o'' 5 (10 * Second) [''a'', ''b''] retry_demo)))
       = [ProbeOk, Inventory, Retrieval, Pause, ProbeOk, Inventory]"
  by (simp add: run_defs retry_demo_def)

text \<open>
  With a limit of zero the second reading of the clock is already past the deadline:
  the models are all there, and the loop gives up before it asks.
\<close>

lemma startup_timeout_run:
  "fst (waitUntilReady scripted ''http://o'' 5 0 [''a'', ''b''] ready_demo)
     = Return (Some (New ''startup timeout''))
   \<and> trace (snd (waitUntilReady scripted ''http://o'' 5 0 [''a'', ''b''] ready_demo)) = []"
  by (simp add: run_defs ready_demo_def)

text \<open>
  A cancellation that arrives while the pull stream is read: the decoder returns
  \<open>context canceled\<close>, the loop pauses and probes again.
\<close>

lemma cancelled_during_pull_run:
  "fst (waitUntilReady scripted ''http://o'' 5 (3 * Second) [''a''] cancel_demo)
     = Return (Some (Wrap ''ollama not responding: ''
         (url_error (tags_request ''http://o'' 5) Canceled)))
   \<and> actions (trace (snd (waitUntilReady scripted ''http://o'' 5 (3 * Second) [''a''] cancel_demo)))
     = [ProbeOk, Inventory, Retrieval, Pause, ProbeFail, Pause]"
  by (simp add: run_defs cancel_demo_def url_error_def)

section \<open>Properties of waitUntilReady\<close>



text \<open>
  C7. In the actions a run of \<open>waitUntilReady\<close> adds to the trace, an inventory query,
  with which an ensure attempt begins, comes only right after a probe that succeeded; a
  pull comes only right after the inventory query or another pull; a pause comes only
  after a failed probe or an ensure attempt; and a probe comes only first or right after a
  pause. So what follows a pause, hence a failed ensure attempt, is a probe.
\<close>

theorem waitUntilReady_probe_before_ensure:
  "\<exists>as. actions (trace (snd (waitUntilReady T base rt startupLimit required w)))
           = actions (trace w) @ as
       \<and> successively follows as \<and> (as = [] \<or> is_probe (hd as))"
proof -
  obtain r w' where "waitUntilReady T base rt startupLimit required w = (r, w')"
    by (cases "waitUntilReady T base rt startupLimit required w")
  then have "wait_loop T base rt required (clock (reading T w) + startupLimit) None (reading T w)
      = (r, w')"
    and "snd (waitUntilReady T base rt startupLimit required w) = w'"
    by (simp_all add: waitUntilReady_loop)
  with wait_loop_actions
    [of T base rt required "clock (reading T w) + startupLimit" None "reading T w" r w']
  show ?thesis by simp
qed

theorem waitUntilReady_probe_before_ensure_witness:
  "actions (trace (snd (waitUntilReady scripted ''http://o'' 5 (10 * Second) [''a'', ''b''] retry_demo)))
      = [ProbeOk, Inventory, Retrieval, Pause, ProbeOk, Inventory]
   \<and> (\<exists>as. [ProbeOk, Inventory, Retrieval, Pause, ProbeOk, Inventory] = actions (trace retry_demo) @ as
         \<and> successively follows as \<and> (as = [] \<or> is_probe (hd as)))"
proof -
  let ?run = "waitUntilReady scripted ''http://o'' 5 (10 * Second) [''a'', ''b''] retry_demo"
  have acts: "actions (trace (snd ?run)) = [ProbeOk, Inventory, Retrieval, Pause, ProbeOk, Inventory]"
    using retry_run by (rule conjunct2)
  have "\<exists>as. actions (trace (snd ?run)) = actions (trace retry_demo) @ as
         \<and> successively follows as \<and> (as = [] \<or> is_probe (hd as))"
    by (rule waitUntilReady_probe_before_ensure)
  then have "\<exists>as. [ProbeOk, Inventory, Retrieval, Pause, ProbeOk, Inventory]
           = actions (trace retry_demo) @ as
         \<and> successively follows as \<and> (as = [] \<or> is_probe (hd as))"
    by (simp only: acts)
  with acts show ?thesis by (rule conjI)
qed



text \<open>What \<open>listModels\<close> returns, read off the answer of the backend.\<close>

lemma listModels_answer:
  assumes "listModels T base tmo w = (r, w')"
  shows "(r = Panic \<longleftrightarrow> \<not> url_ok T (base @ ''/api/tags''))
    \<and> (r = Return (Inr inventory) \<longleftrightarrow>
         url_ok T (base @ ''/api/tags'') \<and>
         (\<exists>resp names.
            fst (roundtrip T \<lparr>Method = ''GET'', URL = base @ ''/api/tags'', Body = None,
                              Header = [], Timeout = tmo\<rparr> (clock w) (backend w)) = Inr resp
            \<and> StatusCode resp < 400 \<and> as_tags resp = Inr names \<and> inventory = set names))"
proof (cases "url_ok T (base @ ''/api/tags'')")
  case False
  with assms show ?thesis
    by (simp add: listModels_def Do_def tags_request_def)
next
  case True
  let ?rq = "\<lparr>Method = ''GET'', URL = base @ ''/api/tags'', Body = None,
               Header = [], Timeout = tmo\<rparr>"
  obtain res lat b' where rt: "roundtrip T ?rq (clock w) (backend w) = (res, lat, b')"
    by (cases "roundtrip T ?rq (clock w) (backend w)")
  show ?thesis
  proof (cases res)
    case (Inl err)
    with assms True rt show ?thesis
      by (auto simp: listModels_def Do_def tags_request_def)
  next
    case (Inr resp)
    show ?thesis
    proof (cases "400 \<le> StatusCode resp")
      case big: True
      with assms True rt Inr show ?thesis
        by (auto simp: listModels_def Do_def tags_request_def)
    next
      case small: False
      show ?thesis
      proof (cases "as_tags resp")
        case bad: (Inl err)
        with assms True rt Inr small show ?thesis
          by (auto simp: listModels_def Do_def tags_request_def)
      next
        case good: (Inr names)
        with assms True rt Inr small show ?thesis
          by (auto simp: listModels_def Do_def tags_request_def)
      qed
    qed
  qed
qed







text \<open>
  C6. A cancellation is to end the run with a cancellation-class failure and without a
  further retry. The retry loop does otherwise. With the context cancelled from the
  start every request fails with an error that wraps \<open>context canceled\<close>. The first probe
  fails so; the loop stores the error, pauses with \<^verbatim>\<open>time.Sleep\<close>, which no signal
  interrupts, and probes again two seconds later; it returns only once the deadline has
  passed, after a second pause.
\<close>

theorem waitUntilReady_cancelled_retries:
  "fst (waitUntilReady cancelled ''http://o'' 5 (3 * Second) [''a''] idle)
       = Return (Some (Wrap ''ollama not responding: ''
           (Wrap ''Get \"http://o/api/tags\": '' Canceled)))
   \<and> is_canceled (Wrap ''ollama not responding: ''
           (Wrap ''Get \"http://o/api/tags\": '' Canceled))
   \<and> trace (snd (waitUntilReady cancelled ''http://o'' 5 (3 * Second) [''a''] idle))
       = [Http 2 PingSite (tags_request ''http://o'' 5)
            (Inl (Wrap ''Get \"http://o/api/tags\": '' Canceled)),
          Sleep (2 * Second),
          Http (2 * Second + 3) PingSite (tags_request ''http://o'' 5)
            (Inl (Wrap ''Get \"http://o/api/tags\": '' Canceled)),
          Sleep (2 * Second)]
   \<and> clock (snd (waitUntilReady cancelled ''http://o'' 5 (3 * Second) [''a''] idle))
       = 4 * Second + 4"
  by (simp add: waitUntilReady_def wait_loop.simps Now_def Let_def pingOllama_def Do_def
      cancelled_def start_def Sleep_for_def emit_def elapse_def backoff_def Second_def idle_def
      url_error_def tags_request_def)

section \<open>The body of the pull request\<close>

lemma rune_width_ascii: "(of_char b :: nat) < 0x80 \<Longrightarrow> rune_width (b # rest) = 1"
  by (simp add: rune_width_def rune_size_def Let_def)

lemma rune_width_multi:
  assumes "\<not> (of_char b :: nat) < 0x80" "rune_width (b # rest) \<noteq> 0"
  shows "2 \<le> rune_width (b # rest) \<and> rune_width (b # rest) \<le> 4
       \<and> rune_width (b # rest) - 1 \<le> length rest"
proof -
  from assms have "rune_size (of_char b) \<noteq> 0" "\<not> rune_size (of_char b) \<le> 1"
    by (auto simp: rune_width_def rune_size_def Let_def split: if_splits)
  moreover from this assms(2) have "rune_width (b # rest) = rune_size (of_char b)"
    and "\<not> length rest < rune_size (of_char b) - 1"
    by (auto simp: rune_width_def Let_def split: if_splits)
  moreover have "rune_size (of_char b) \<le> 4" by (simp add: rune_size_def)
  ultimately show ?thesis by simp
qed

lemma escaped_single: "escaped esc [c] = (\<not> safe_ascii esc c)"
  by (simp add: escaped_def)

lemma escaped_multi:
  "2 \<le> length r \<Longrightarrow> escaped esc r = (r = line_separator \<or> r = paragraph_separator)"
  by (cases r; cases "tl r") (auto simp: escaped_def)

lemma escape_ascii_length: "2 \<le> length (escape_ascii c)"
  by (simp add: escape_ascii_def)

lemma needs_no_escape_Cons:
  assumes "rune_width (b # rest) = n" "n \<noteq> 0"
  shows "needs_no_escape esc (b # rest)
     = (\<not> escaped esc (take n (b # rest)) \<and> needs_no_escape esc (drop (n - 1) rest))"
  using assms
  by (cases "runes (drop (n - 1) rest)") (simp_all add: needs_no_escape_def Let_def)

lemma needs_no_escape_invalid:
  "rune_width (b # rest) = 0 \<Longrightarrow> \<not> needs_no_escape esc (b # rest)"
  by (simp add: needs_no_escape_def)

lemma appendString_copies_or_grows:
  "(appendString esc s = s \<and> needs_no_escape esc s)
   \<or> (length s < length (appendString esc s) \<and> \<not> needs_no_escape esc s)"
proof (induction "length s" arbitrary: s rule: less_induct)
  case less
  show ?case
  proof (cases s)
    case Nil
    then show ?thesis by (simp add: needs_no_escape_def)
  next
    case (Cons b rest)
    show ?thesis
    proof (cases "(of_char b :: nat) < 0x80")
      case True
      from rune_width_ascii [OF True]
      have nne: "needs_no_escape esc (b # rest)
          = (safe_ascii esc b \<and> needs_no_escape esc rest)"
        using needs_no_escape_Cons [of b rest 1 esc] by (simp add: escaped_single)
      have app: "appendString esc (b # rest)
          = (if safe_ascii esc b then [b] else escape_ascii b) @ appendString esc rest"
        using True by simp
      have IH: "(appendString esc rest = rest \<and> needs_no_escape esc rest)
          \<or> (length rest < length (appendString esc rest) \<and> \<not> needs_no_escape esc rest)"
        using less [of rest] Cons by simp
      show ?thesis
      proof (cases "safe_ascii esc b")
        case safe: True
        with app nne IH Cons show ?thesis by auto
      next
        case unsafe: False
        from IH have "length rest \<le> length (appendString esc rest)" by auto
        with escape_ascii_length [of b] app unsafe
        have "length (b # rest) < length (appendString esc (b # rest))" by simp
        with nne unsafe Cons show ?thesis by simp
      qed
    next
      case False
      let ?n = "rune_width (b # rest)"
      show ?thesis
      proof (cases "?n = 0")
        case zero: True
        have IH: "(appendString esc rest = rest \<and> needs_no_escape esc rest)
            \<or> (length rest < length (appendString esc rest) \<and> \<not> needs_no_escape esc rest)"
          using less [of rest] Cons by simp
        then have "length rest \<le> length (appendString esc rest)" by auto
        with False zero
        have "length (b # rest) < length (appendString esc (b # rest))" by simp
        with needs_no_escape_invalid [OF zero] Cons show ?thesis by simp
      next
        case pos: False
        from rune_width_multi [OF False pos]
        have n: "2 \<le> ?n" "?n \<le> 4" "?n - 1 \<le> length rest" by simp_all
        let ?r = "take ?n (b # rest)"
        let ?tail = "drop (?n - 1) rest"
        have len_r: "length ?r = ?n" using n by simp
        have len_s: "length (b # rest) = ?n + length ?tail" using n by simp
        have IH: "(appendString esc ?tail = ?tail \<and> needs_no_escape esc ?tail)
            \<or> (length ?tail < length (appendString esc ?tail) \<and> \<not> needs_no_escape esc ?tail)"
          using less [of ?tail] Cons by simp
        then have grow: "length ?tail \<le> length (appendString esc ?tail)" by auto
        have split: "b # rest = ?r @ ?tail"
          using n by (cases ?n) (simp_all add: append_take_drop_id)
        have nne: "needs_no_escape esc (b # rest)
            = (\<not> (?r = line_separator \<or> ?r = paragraph_separator)
               \<and> needs_no_escape esc ?tail)"
          using needs_no_escape_Cons [OF refl pos, of esc] escaped_multi [of ?r esc] len_r n
          by simp
        show ?thesis
        proof (cases "?r = line_separator \<or> ?r = paragraph_separator")
          case sep: True
          then have "length (appendString esc (b # rest)) = 6 + length (appendString esc ?tail)"
            using False pos by (auto simp: Let_def)
          with grow len_s n have "length (b # rest) < length (appendString esc (b # rest))"
            by simp
          with nne sep Cons show ?thesis by simp
        next
          case other: False
          then have app: "appendString esc (b # rest) = ?r @ appendString esc ?tail"
            using False pos by (simp add: Let_def)
          from IH show ?thesis
          proof
            assume "appendString esc ?tail = ?tail \<and> needs_no_escape esc ?tail"
            with app nne other split Cons show ?thesis by simp
          next
            assume longer: "length ?tail < length (appendString esc ?tail)
                \<and> \<not> needs_no_escape esc ?tail"
            from app have "length (appendString esc (b # rest))
                = length ?r + length (appendString esc ?tail)"
              by (simp only: length_append)
            with len_r len_s longer
            have "length (b # rest) < length (appendString esc (b # rest))" by linarith
            moreover from nne longer have "\<not> needs_no_escape esc (b # rest)" by blast
            ultimately show ?thesis using Cons by blast
          qed
        qed
      qed
    qed
  qed
qed

lemma appendString_fixed_iff: "appendString esc s = s \<longleftrightarrow> needs_no_escape esc s"
  using appendString_copies_or_grows [of esc s] by auto

lemma needs_no_escape_ascii:
  "list_all (\<lambda>c. (of_char c :: nat) < 0x80) s \<Longrightarrow>
     needs_no_escape esc s = list_all (safe_ascii esc) s"
proof (induction s)
  case Nil
  then show ?case by (simp add: needs_no_escape_def)
next
  case (Cons b rest)
  then have ascii: "(of_char b :: nat) < 0x80" by simp
  from needs_no_escape_Cons [OF rune_width_ascii [OF ascii], of esc rest] Cons
  show ?case by (simp add: escaped_single)
qed

lemma json_name_object_eq:
  "''{\"name\":\"'' @ model @ ''\"}'' = json_name_object esc model
     \<longleftrightarrow> needs_no_escape esc model"
proof -
  have "''{\"name\":\"'' @ model @ ''\"}'' = json_name_object esc model
      \<longleftrightarrow> model = appendString esc model"
    by (simp add: json_name_object_def)
  then show ?thesis using appendString_fixed_iff [of esc model] by auto
qed

text \<open>
  C10 (amended). The request that \<open>pullModel\<close> sends is a POST to \<open>/api/pull\<close> whose body is
  the model identifier between the fixed bytes \<^verbatim>\<open>{"name":"\<close> and \<^verbatim>\<open>"}\<close>, unescaped. That
  body is the JSON encoding of the object, as \<^verbatim>\<open>encoding/json\<close> writes it with or without
  HTML escaping, exactly when the identifier is valid UTF-8 and none of its characters is
  one the encoder escapes: the quotation mark, the reverse solidus, a control character
  below \<open>0x20\<close>, U+2028, U+2029 and, with HTML escaping, \<open><\<close>, \<open>>\<close> and \<open>&\<close>.
\<close>

theorem pull_body_is_json_iff:
  assumes "pullModel T base tmo model w = (Return r, w')"
  shows "\<exists>rq. pull_requests (trace w') = pull_requests (trace w) @ [rq]
      \<and> Method rq = ''POST'' \<and> URL rq = base @ ''/api/pull''
      \<and> Body rq = Some (''{\"name\":\"'' @ model @ ''\"}'')
      \<and> (Body rq = Some (json_name_object escapeHTML model)
           \<longleftrightarrow> (\<exists>rs. runes model = Some rs \<and> list_all (\<lambda>r. \<not> escaped escapeHTML r) rs))"
proof -
  let ?rq = "pull_request base tmo model"
  have sent: "pull_requests (trace w') = pull_requests (trace w) @ [?rq]"
    using pullModel_pull_requests [OF assms] .
  have body: "Body ?rq = Some (''{\"name\":\"'' @ model @ ''\"}'')"
    by (simp add: pull_request_def pull_body_def)
  have "needs_no_escape escapeHTML model
      \<longleftrightarrow> (\<exists>rs. runes model = Some rs \<and> list_all (\<lambda>r. \<not> escaped escapeHTML r) rs)"
    by (cases "runes model") (simp_all add: needs_no_escape_def)
  with json_name_object_eq [of model escapeHTML] body
  have "Body ?rq = Some (json_name_object escapeHTML model)
      \<longleftrightarrow> (\<exists>rs. runes model = Some rs \<and> list_all (\<lambda>r. \<not> escaped escapeHTML r) rs)"
    by simp
  moreover have "Method ?rq = ''POST''" "URL ?rq = base @ ''/api/pull''"
    by (simp_all add: pull_request_def)
  ultimately show ?thesis using sent body by blast
qed

lemma llama_plain: "needs_no_escape esc ''llama3:8b''"
proof -
  have "list_all (\<lambda>c. (of_char c :: nat) < 0x80) ''llama3:8b''" by simp
  from needs_no_escape_ascii [OF this, of esc] show ?thesis
    by (simp add: safe_ascii_def)
qed

lemma llama_pull:
  "pullModel scripted ''http://o'' 5 ''llama3:8b'' (demo_world [Event (status_event ''success'')])
     = (Return None,
        snd (pullModel scripted ''http://o'' 5 ''llama3:8b''
               (demo_world [Event (status_event ''success'')])))"
  by (simp add: pullModel_def Do_def scripted_def demo_world_def start_def stream_response_def
      status_event_def sdiv_2xx pull_request_def emit_def elapse_def)

theorem pull_body_is_json_iff_witness:
  "\<exists>rq. pull_requests (trace (snd (pullModel scripted ''http://o'' 5 ''llama3:8b''
               (demo_world [Event (status_event ''success'')]))))
          = pull_requests (trace (demo_world [Event (status_event ''success'')])) @ [rq]
      \<and> Body rq = Some (''{\"name\":\"llama3:8b\"}'')
      \<and> Body rq = Some (json_name_object True ''llama3:8b'')"
proof -
  have "\<exists>rs. runes ''llama3:8b'' = Some rs \<and> list_all (\<lambda>r. \<not> escaped True r) rs"
    using llama_plain [of True]
    by (cases "runes ''llama3:8b''") (simp_all add: needs_no_escape_def)
  with pull_body_is_json_iff [OF llama_pull, of True] show ?thesis by auto
qed

text \<open>
  C10 as stated excludes the quotation mark and the reverse solidus only. The byte
  \<open>0x01\<close> is neither, and the body sent holds it raw, where the JSON encoding has
  \<^verbatim>\<open>\u0001\<close>.
\<close>

theorem pull_body_control_char_counterexample:
  "CHR 0x22 \<notin> set [CHR 0x01] \<and> CHR 0x5C \<notin> set [CHR 0x01]
   \<and> pull_requests (trace (snd (pullModel scripted ''http://o'' 5 [CHR 0x01]
         (demo_world [Event (status_event ''success'')]))))
       = [\<lparr>Method = ''POST'', URL = ''http://o/api/pull'',
           Body = Some (''{\"name\":\"'' @ [CHR 0x01] @ ''\"}''),
           Header = [(''Content-Type'', ''application/json'')], Timeout = 5\<rparr>]
   \<and> json_name_object True [CHR 0x01] = ''{\"name\":\"'' @ [CHR 0x5C] @ ''u0001\"}''
   \<and> json_name_object False [CHR 0x01] = ''{\"name\":\"'' @ [CHR 0x5C] @ ''u0001\"}''
   \<and> ''{\"name\":\"'' @ [CHR 0x01] @ ''\"}'' \<noteq> json_name_object True [CHR 0x01]
   \<and> ''{\"name\":\"'' @ [CHR 0x01] @ ''\"}'' \<noteq> json_name_object False [CHR 0x01]"
  by (simp add: pullModel_def Do_def scripted_def demo_world_def start_def stream_response_def
      status_event_def sdiv_2xx pull_request_def pull_body_def emit_def elapse_def
      json_name_object_def safe_ascii_def escape_ascii_def hex_digit_def)

text \<open>
  Further identifiers: a byte that is not UTF-8, a character escaped only for HTML, and
  an identifier that closes the string and adds a member.
\<close>

lemma json_name_object_examples:
  "json_name_object True [CHR 0xFF] = ''{\"name\":\"'' @ [CHR 0x5C] @ ''ufffd\"}''"
  "json_name_object True ''a<b'' = ''{\"name\":\"a'' @ [CHR 0x5C] @ ''u003cb\"}''"
  "json_name_object False ''a<b'' = ''{\"name\":\"a<b\"}''"
  "pull_body ''x\",\"insecure\":true,\"y\":\"z'' = ''{\"name\":\"x\",\"insecure\":true,\"y\":\"z\"}''"
  by (simp_all add: json_name_object_def safe_ascii_def escape_ascii_def hex_digit_def
      rune_width_def rune_size_def pull_body_def)

section \<open>Properties of the one-shot probe\<close>

lemma output_lines_append [simp]: "output_lines (xs @ ys) = output_lines xs @ output_lines ys"
  by (induction xs rule: output_lines.induct) simp_all

lemma requests_append [simp]: "requests (xs @ ys) = requests xs @ requests ys"
  by (induction xs rule: requests.induct) simp_all

lemma emit_lines_trace [simp]: "trace (emit_lines ls w) = trace w @ map Stderr ls"
  by (induction ls arbitrary: w) simp_all

lemma output_lines_Stderr [simp]: "output_lines (map Stderr ls) = ls"
  by (induction ls) simp_all

lemma requests_Stderr [simp]: "requests (map Stderr ls) = []"
  by (induction ls) simp_all

lemma probe_main_invalid:
  assumes "\<forall>tmo. \<not> config_valid L env tmo"
  shows "\<exists>msg. probe_main L env T w = (1, emit (Stderr msg) w)"
proof -
  have *: "\<exists>msg. fail_with err w = (1, emit (Stderr msg) w)" for err
    unfolding fail_with_def by blast
  from assms have "base_of L env = '''' \<or> TrimSpace L (env ''REQUIRED_MODELS'') = '''' \<or>
      required_of L env = [] \<or> TrimSpace L (env ''REQUEST_TIMEOUT'') = '''' \<or>
      (\<exists>err. timeout_of L env = Inl err)"
    by (cases "timeout_of L env") (auto simp: config_valid_def)
  then show ?thesis
    using *
    by (auto simp: probe_main_def requireEnv_def parseModels_def mustParseDuration_def
        base_of_def required_of_def timeout_of_def Let_def split: sum.splits)
qed

lemma probe_main_valid:
  assumes "config_valid L env tmo"
  shows "probe_main L env T w =
     (case listModels T (base_of L env) tmo w of
        (Panic, w') \<Rightarrow> (2, emit_lines (PanicReport L) w')
      | (Return (Inl err), w') \<Rightarrow> fail_with err w'
      | (Return (Inr have), w') \<Rightarrow> check_required have (required_of L env) w')"
  using assms
  unfolding base_of_def required_of_def timeout_of_def config_valid_def
  by (simp add: probe_main_def requireEnv_def parseModels_def mustParseDuration_def Let_def)

lemma check_required_cases:
  "check_required have required w =
     (if set required \<subseteq> have then (0, w)
      else (1, emit (Stderr (''missing model: '' @ hd (filter (\<lambda>need. need \<notin> have) required))) w))"
  by (induction required) auto

lemma listModels_requests:
  "listModels T base tmo w = (r, w') \<Longrightarrow>
     output_lines (trace w') = output_lines (trace w) \<and>
     requests (trace w') = requests (trace w)
        @ (if r = Panic then [] else [(ListSite, tags_request base tmo)])"
  unfolding listModels_def
  by (auto split: prod.splits outcome.splits sum.splits if_splits dest!: Do_cases)

text \<open>
  C9. The probe exits with code 0 exactly when the configuration passes validation, the
  request for the inventory is accepted and answered without a transport error, with a
  status below 400 and a body that decodes to a list of names, and every required model
  is among these names; it has then written nothing. In every other case the code is 1
  and one line was written, or, when the request cannot be built and \<^verbatim>\<open>Do\<close> panics, the
  code is 2 and the runtime's report was written. In every case the requests made are
  none, or the single inventory query: no request is repeated and no pull is made.
\<close>

theorem probe_main_exit_code:
  assumes "probe_main L env T w = (code, w')"
  shows "(code = 0 \<longleftrightarrow>
            (\<exists>tmo resp names. config_valid L env tmo
               \<and> url_ok T (base_of L env @ ''/api/tags'')
               \<and> fst (roundtrip T \<lparr>Method = ''GET'', URL = base_of L env @ ''/api/tags'',
                                    Body = None, Header = [], Timeout = tmo\<rparr>
                         (clock w) (backend w)) = Inr resp
               \<and> StatusCode resp < 400 \<and> as_tags resp = Inr names
               \<and> set (required_of L env) \<subseteq> set names))
    \<and> (code = 0 \<or> code = 1 \<or> code = 2)
    \<and> (code = 0 \<longrightarrow> output_lines (trace w') = output_lines (trace w))
    \<and> (code = 1 \<longrightarrow> (\<exists>line. output_lines (trace w') = output_lines (trace w) @ [line]))
    \<and> (code = 2 \<longrightarrow> output_lines (trace w') = output_lines (trace w) @ PanicReport L)
    \<and> (requests (trace w') = requests (trace w)
        \<or> (\<exists>tmo. requests (trace w') = requests (trace w)
              @ [(ListSite, \<lparr>Method = ''GET'', URL = base_of L env @ ''/api/tags'',
                              Body = None, Header = [], Timeout = tmo\<rparr>)]))"
proof (cases "\<exists>tmo. config_valid L env tmo")
  case False
  then have none: "\<forall>tmo. \<not> config_valid L env tmo" by simp
  from probe_main_invalid [OF none, of T w] assms obtain msg
    where "code = 1" "w' = emit (Stderr msg) w"
    by auto
  with none show ?thesis by simp
next
  case True
  then obtain tmo where valid: "config_valid L env tmo" by blast
  have uniq: "tmo' = tmo" if "config_valid L env tmo'" for tmo'
    using that valid by (simp add: config_valid_def)
  let ?rq = "\<lambda>tmo. \<lparr>Method = ''GET'', URL = base_of L env @ ''/api/tags'',
                      Body = None, Header = [], Timeout = tmo\<rparr>"
  obtain r w1 where lm: "listModels T (base_of L env) tmo w = (r, w1)"
    by (cases "listModels T (base_of L env) tmo w")
  from listModels_requests [OF lm]
  have out1: "output_lines (trace w1) = output_lines (trace w)"
    and req1: "requests (trace w1) = requests (trace w)
        @ (if r = Panic then [] else [(ListSite, ?rq tmo)])"
    by (simp_all add: tags_request_def)
  have main: "(code, w') = (case (r, w1) of
        (Panic, w') \<Rightarrow> (2, emit_lines (PanicReport L) w')
      | (Return (Inl err), w') \<Rightarrow> fail_with err w'
      | (Return (Inr have), w') \<Rightarrow> check_required have (required_of L env) w')"
    using probe_main_valid [OF valid, of T w] assms lm by simp
  have iff: "(\<exists>tmo resp names. config_valid L env tmo
               \<and> url_ok T (base_of L env @ ''/api/tags'')
               \<and> fst (roundtrip T (?rq tmo) (clock w) (backend w)) = Inr resp
               \<and> StatusCode resp < 400 \<and> as_tags resp = Inr names
               \<and> set (required_of L env) \<subseteq> set names)
          \<longleftrightarrow> (\<exists>inventory. r = Return (Inr inventory) \<and> set (required_of L env) \<subseteq> inventory)"
    (is "?query = ?listed")
  proof
    assume ?query
    then obtain tmo' resp names where q: "config_valid L env tmo'"
      "url_ok T (base_of L env @ ''/api/tags'')"
      "fst (roundtrip T (?rq tmo') (clock w) (backend w)) = Inr resp"
      "StatusCode resp < 400" "as_tags resp = Inr names"
      "set (required_of L env) \<subseteq> set names"
      by blast
    from uniq [OF q(1)] q(3)
    have "fst (roundtrip T (?rq tmo) (clock w) (backend w)) = Inr resp" by simp
    with listModels_answer [OF lm, of "set names"] q(2,4,5)
    have "r = Return (Inr (set names))" by blast
    with q(6) show ?listed by blast
  next
    assume ?listed
    then obtain inventory where l: "r = Return (Inr inventory)"
      "set (required_of L env) \<subseteq> inventory"
      by blast
    from listModels_answer [OF lm, of inventory] l(1) obtain resp names
      where "url_ok T (base_of L env @ ''/api/tags'')"
        "fst (roundtrip T (?rq tmo) (clock w) (backend w)) = Inr resp"
        "StatusCode resp < 400" "as_tags resp = Inr names" "inventory = set names"
      by blast
    with valid l(2) show ?query by blast
  qed
  have one: "requests (trace w1) = requests (trace w)
        \<or> (\<exists>tmo. requests (trace w1) = requests (trace w) @ [(ListSite, ?rq tmo)])"
    using req1 by (cases "r = Panic") auto
  have failed: ?thesis
    if "code = 1" "w' = emit (Stderr line) w1" "\<not> ?listed" for line
  proof -
    from that(2) out1 have "output_lines (trace w') = output_lines (trace w) @ [line]"
      by simp
    moreover from that(2) one
    have "requests (trace w') = requests (trace w)
        \<or> (\<exists>tmo. requests (trace w') = requests (trace w) @ [(ListSite, ?rq tmo)])"
      by simp
    ultimately show ?thesis using that(1,3) iff by simp
  qed
  show ?thesis
  proof (cases r)
    case Panic
    with main have c: "code = 2" "w' = emit_lines (PanicReport L) w1"
      by simp_all
    from Panic have nl: "\<not> ?listed" by simp
    from c(2) out1 have "output_lines (trace w') = output_lines (trace w) @ PanicReport L"
      by simp
    moreover from c(2) one
    have "requests (trace w') = requests (trace w)
        \<or> (\<exists>tmo. requests (trace w') = requests (trace w) @ [(ListSite, ?rq tmo)])"
      by simp
    ultimately show ?thesis using c(1) nl iff by simp
  next
    case (Return x)
    show ?thesis
    proof (cases x)
      case (Inl err)
      with main Return have "code = 1" "w' = emit (Stderr (Error_text err)) w1"
        by (simp_all add: fail_with_def)
      moreover from Return Inl have "\<not> ?listed" by simp
      ultimately show ?thesis by (rule failed)
    next
      case (Inr inventory)
      with main Return
      have res: "(code, w') = check_required inventory (required_of L env) w1" by simp
      show ?thesis
      proof (cases "set (required_of L env) \<subseteq> inventory")
        case True
        with res have fin: "code = 0" "w' = w1" by (simp_all add: check_required_cases)
        from True Return Inr have ?listed by simp
        with fin out1 one iff show ?thesis by simp
      next
        case False
        with res have "code = 1"
          "w' = emit (Stderr (''missing model: ''
                  @ hd (filter (\<lambda>need. need \<notin> inventory) (required_of L env)))) w1"
          by (simp_all add: check_required_cases)
        moreover from False Return Inr have "\<not> ?listed" by simp
        ultimately show ?thesis by (rule failed)
      qed
    qed
  qed
qed

lemmas probe_defs = probe_main_def requireEnv_def parseModels_def mustParseDuration_def
  demo_lib_def demo_env_def probe_demo_def trim_ascii_def is_space_def commas_to_spaces_def
  listModels_def Do_def scripted_def start_def emit_def elapse_def tags_request_def
  tags_response_def fail_with_def Second_def

lemma probe_present_run:
  "probe_main demo_lib (demo_env ''a, b'') scripted probe_demo
     = (0, \<lparr>clock = 1, backend = [],
            trace = [Http 0 ListSite (tags_request ''http://o'' (5 * Second))
                       (Inr (tags_response [''b'', ''a'', ''c'']))]\<rparr>)"
  by (simp add: probe_defs)

lemma probe_missing_run:
  "probe_main demo_lib (demo_env ''a, z'') scripted probe_demo
     = (1, \<lparr>clock = 1, backend = [],
            trace = [Http 0 ListSite (tags_request ''http://o'' (5 * Second))
                       (Inr (tags_response [''b'', ''a'', ''c''])),
                     Stderr ''missing model: z'']\<rparr>)"
  by (simp add: probe_defs)

lemma probe_invalid_run:
  "probe_main demo_lib (demo_env '' , '') scripted probe_demo
     = (1, \<lparr>clock = 0, backend = [(Inr (tags_response [''b'', ''a'', ''c'']), 1)],
            trace = [Stderr ''REQUIRED_MODELS must not be empty'']\<rparr>)"
  by (simp add: probe_defs)

lemma probe_unreachable_run:
  "probe_main demo_lib (demo_env ''a, b'') scripted unreachable
     = (1, \<lparr>clock = 0, backend = [],
            trace = [Http 0 ListSite (tags_request ''http://o'' (5 * Second))
                       (Inl (Lib ''connection refused'')),
                     Stderr ''connection refused'']\<rparr>)"
  by (simp add: probe_defs unreachable_def)

theorem probe_main_exit_code_witness:
  "fst (probe_main demo_lib (demo_env ''a, b'') scripted probe_demo) = 0
   \<and> output_lines (trace (snd (probe_main demo_lib (demo_env ''a, b'') scripted probe_demo)))
       = output_lines (trace probe_demo)
   \<and> (\<exists>tmo resp names. config_valid demo_lib (demo_env ''a, b'') tmo
          \<and> url_ok scripted (base_of demo_lib (demo_env ''a, b'') @ ''/api/tags'')
          \<and> fst (roundtrip scripted
                   \<lparr>Method = ''GET'', URL = base_of demo_lib (demo_env ''a, b'') @ ''/api/tags'',
                      Body = None, Header = [], Timeout = tmo\<rparr>
                   (clock probe_demo) (backend probe_demo)) = Inr resp
          \<and> StatusCode resp < 400 \<and> as_tags resp = Inr names
          \<and> set (required_of demo_lib (demo_env ''a, b'')) \<subseteq> set names)"
proof -
  let ?run = "probe_main demo_lib (demo_env ''a, b'') scripted probe_demo"
  have code: "fst ?run = 0" by (simp add: probe_present_run)
  have "?run = (fst ?run, snd ?run)" by simp
  note fact = probe_main_exit_code [OF this]
  from fact code have silent: "output_lines (trace (snd ?run)) = output_lines (trace probe_demo)"
    by blast
  from fact code have "\<exists>tmo resp names. config_valid demo_lib (demo_env ''a, b'') tmo
          \<and> url_ok scripted (base_of demo_lib (demo_env ''a, b'') @ ''/api/tags'')
          \<and> fst (roundtrip scripted
                   \<lparr>Method = ''GET'', URL = base_of demo_lib (demo_env ''a, b'') @ ''/api/tags'',
                      Body = None, Header = [], Timeout = tmo\<rparr>
                   (clock probe_demo) (backend probe_demo)) = Inr resp
          \<and> StatusCode resp < 400 \<and> as_tags resp = Inr names
          \<and> set (required_of demo_lib (demo_env ''a, b'')) \<subseteq> set names"
    by blast
  with code silent show ?thesis by blast
qed

end
